theory Spec2Isabelle
  imports Main
begin

section \<open>Strings and regular expressions\<close>

text \<open>
  Python strings are modelled as \<^typ>\<open>string\<close>: a character is a code point below 256.
  The patterns of \<^verbatim>\<open>LearnFileDownloader.py\<close> are written as terms of the datatype
  \<open>regex\<close>, constructor by constructor as the pattern text reads, and run by a backtracking
  matcher that tries the alternatives in the order of Python's \<^verbatim>\<open>re\<close> module: a greedy
  quantifier tries the longest repetition first, a lazy one the shortest first, the left
  branch of \<^verbatim>\<open>|\<close> before the right one, and \<^verbatim>\<open>search\<close> tries the start positions
  from left to right.
\<close>

datatype citem = Chr char | Word | Digit | Space

datatype cclass = Dot | Item citem | Set_of "citem list" | Not_of "citem list"

datatype regex =
    Lit string
  | Cls cclass
  | Star cclass
  | Lazy cclass
  | Plus cclass
  | Opt regex
  | Alt regex regex
  | Grp nat regex
  | Cat "regex list"
  | Eos

definition is_digit :: "char \<Rightarrow> bool" where
  "is_digit c = (let n = (of_char c :: nat) in 48 \<le> n \<and> n \<le> 57)"

definition is_word :: "char \<Rightarrow> bool" where
  "is_word c = (let n = (of_char c :: nat) in
     (48 \<le> n \<and> n \<le> 57) \<or> (65 \<le> n \<and> n \<le> 90) \<or> n = 95 \<or> (97 \<le> n \<and> n \<le> 122)
     \<or> n = 170 \<or> n = 178 \<or> n = 179 \<or> n = 181 \<or> n = 185 \<or> n = 186
     \<or> (188 \<le> n \<and> n \<le> 190) \<or> (192 \<le> n \<and> n \<le> 214) \<or> (216 \<le> n \<and> n \<le> 246)
     \<or> 248 \<le> n)"

definition is_space :: "char \<Rightarrow> bool" where
  "is_space c = (let n = (of_char c :: nat) in
     (9 \<le> n \<and> n \<le> 13) \<or> (28 \<le> n \<and> n \<le> 32) \<or> n = 133 \<or> n = 160)"

fun item_match :: "citem \<Rightarrow> char \<Rightarrow> bool" where
  "item_match (Chr d) c = (c = d)"
| "item_match Word c = is_word c"
| "item_match Digit c = is_digit c"
| "item_match Space c = is_space c"

fun cls_match :: "cclass \<Rightarrow> char \<Rightarrow> bool" where
  "cls_match Dot c = (c \<noteq> CHR 0x0A)"
| "cls_match (Item a) c = item_match a c"
| "cls_match (Set_of as) c = list_ex (\<lambda>a. item_match a c) as"
| "cls_match (Not_of as) c = (\<not> list_ex (\<lambda>a. item_match a c) as)"

text \<open>
  A match in progress is at index \<open>i\<close> of the text, with the rest \<open>s\<close> of the text still to
  read and the spans \<open>g\<close> of the groups closed so far. The continuation \<open>k\<close> is the rest of
  the pattern; \<open>None\<close> makes the matcher backtrack.
\<close>

type_synonym groups = "nat \<rightharpoonup> nat \<times> nat"

type_synonym 'a cont = "nat \<Rightarrow> string \<Rightarrow> groups \<Rightarrow> 'a option"

fun star :: "cclass \<Rightarrow> nat \<Rightarrow> string \<Rightarrow> groups \<Rightarrow> 'a cont \<Rightarrow> 'a option" where
  "star c i [] g k = k i [] g"
| "star c i (x # xs) g k =
     (if cls_match c x
      then (case star c (Suc i) xs g k of Some r \<Rightarrow> Some r | None \<Rightarrow> k i (x # xs) g)
      else k i (x # xs) g)"

fun lazy :: "cclass \<Rightarrow> nat \<Rightarrow> string \<Rightarrow> groups \<Rightarrow> 'a cont \<Rightarrow> 'a option" where
  "lazy c i [] g k = k i [] g"
| "lazy c i (x # xs) g k =
     (case k i (x # xs) g of Some r \<Rightarrow> Some r
      | None \<Rightarrow> if cls_match c x then lazy c (Suc i) xs g k else None)"

fun rmatch :: "regex \<Rightarrow> nat \<Rightarrow> string \<Rightarrow> groups \<Rightarrow> 'a cont \<Rightarrow> 'a option" where
  "rmatch (Lit l) i s g k =
     (if take (length l) s = l then k (i + length l) (drop (length l) s) g else None)"
| "rmatch (Cls c) i s g k =
     (case s of [] \<Rightarrow> None | x # xs \<Rightarrow> if cls_match c x then k (Suc i) xs g else None)"
| "rmatch (Star c) i s g k = star c i s g k"
| "rmatch (Lazy c) i s g k = lazy c i s g k"
| "rmatch (Plus c) i s g k =
     (case s of [] \<Rightarrow> None | x # xs \<Rightarrow> if cls_match c x then star c (Suc i) xs g k else None)"
| "rmatch (Opt r) i s g k =
     (case rmatch r i s g k of Some m \<Rightarrow> Some m | None \<Rightarrow> k i s g)"
| "rmatch (Alt a b) i s g k =
     (case rmatch a i s g k of Some m \<Rightarrow> Some m | None \<Rightarrow> rmatch b i s g k)"
| "rmatch (Grp n r) i s g k = rmatch r i s g (\<lambda>j s' g'. k j s' (g'(n \<mapsto> (i, j))))"
| "rmatch (Cat []) i s g k = k i s g"
| "rmatch (Cat (r # rs)) i s g k = rmatch r i s g (\<lambda>j s' g'. rmatch (Cat rs) j s' g' k)"
| "rmatch Eos i s g k = (if s = [] \<or> s = [CHR 0x0A] then k i s g else None)"

text \<open>A match object: \<^verbatim>\<open>m.start()\<close>, \<^verbatim>\<open>m.end()\<close> and the spans of its groups.\<close>

record mobj =
  mstart :: nat
  mend :: nat
  mgroups :: groups

definition match_at :: "regex \<Rightarrow> nat \<Rightarrow> string \<Rightarrow> mobj option" where
  "match_at r i s =
     rmatch r i s Map.empty (\<lambda>j s' g. Some \<lparr>mstart = i, mend = j, mgroups = g\<rparr>)"

fun search_from :: "regex \<Rightarrow> nat \<Rightarrow> string \<Rightarrow> mobj option" where
  "search_from r i [] = match_at r i []"
| "search_from r i (x # xs) =
     (case match_at r i (x # xs) of Some m \<Rightarrow> Some m | None \<Rightarrow> search_from r (Suc i) xs)"

text \<open>\<^verbatim>\<open>pattern.search(txt, pos)\<close> and \<^verbatim>\<open>pattern.match(txt)\<close>.\<close>

definition search :: "regex \<Rightarrow> string \<Rightarrow> nat \<Rightarrow> mobj option" where
  "search r txt pos = search_from r (min pos (length txt)) (drop pos txt)"

definition match :: "regex \<Rightarrow> string \<Rightarrow> mobj option" where
  "match r txt = match_at r 0 txt"

text \<open>The slice \<^verbatim>\<open>s[a:b]\<close> for indices that are not negative.\<close>

definition slice :: "string \<Rightarrow> nat \<Rightarrow> nat \<Rightarrow> string" where
  "slice s a b = take (b - a) (drop a s)"

text \<open>\<^verbatim>\<open>m.group(n)\<close>: \<open>None\<close> when the group took no part in the match.\<close>

definition group :: "string \<Rightarrow> mobj \<Rightarrow> nat \<Rightarrow> string option" where
  "group txt m n = map_option (\<lambda>(a, b). slice txt a b) (mgroups m n)"

text \<open>
  \<^verbatim>\<open>pattern.finditer\<close>: the matches from left to right, none overlapping another. After an
  empty match the scan moves on by one character.
\<close>

function finditer_from :: "regex \<Rightarrow> nat \<Rightarrow> string \<Rightarrow> mobj list" where
  "finditer_from r i s =
     (case search_from r i s of
        None \<Rightarrow> []
      | Some m \<Rightarrow>
          (let nxt = (if mstart m < mend m then mend m else Suc (mstart m))
           in m # (if i < nxt \<and> nxt \<le> i + length s
                   then finditer_from r nxt (drop (nxt - i) s) else [])))"
  by pat_completeness auto
termination
  by (relation "measure (\<lambda>(r, i, s). length s)") auto

definition finditer :: "regex \<Rightarrow> string \<Rightarrow> mobj list" where
  "finditer r txt = finditer_from r 0 txt"

text \<open>\<^verbatim>\<open>pattern.findall\<close> for a pattern with one group: the text of group 1, the empty
  string where the group took no part.\<close>

definition findall1 :: "regex \<Rightarrow> string \<Rightarrow> string list" where
  "findall1 r txt = map (\<lambda>m. case group txt m 1 of None \<Rightarrow> [] | Some x \<Rightarrow> x) (finditer r txt)"

text \<open>\<^verbatim>\<open>pattern.sub(repl, txt)\<close> for a replacement text without group references.\<close>

function sub_from :: "regex \<Rightarrow> string \<Rightarrow> nat \<Rightarrow> string \<Rightarrow> string" where
  "sub_from r repl i s =
     (case match_at r i s of
        None \<Rightarrow> (case s of [] \<Rightarrow> [] | x # xs \<Rightarrow> x # sub_from r repl (Suc i) xs)
      | Some m \<Rightarrow>
          if i < mend m \<and> mend m \<le> i + length s
          then repl @ sub_from r repl (mend m) (drop (mend m - i) s)
          else (case s of [] \<Rightarrow> repl | x # xs \<Rightarrow> repl @ x # sub_from r repl (Suc i) xs))"
  by pat_completeness auto
termination
  by (relation "measure (\<lambda>(r, repl, i, s). length s)") auto

definition sub :: "regex \<Rightarrow> string \<Rightarrow> string \<Rightarrow> string" where
  "sub r repl txt = sub_from r repl 0 txt"

text \<open>\<^verbatim>\<open>str(i)\<close> for a natural number.\<close>

definition digit_char :: "nat \<Rightarrow> char" where
  "digit_char d = char_of (48 + d)"

function str_nat :: "nat \<Rightarrow> string" where
  "str_nat n = (if n < 10 then [digit_char n] else str_nat (n div 10) @ [digit_char (n mod 10)])"
  by pat_completeness auto
termination
  by (relation "measure id") auto


section \<open>The patterns of the program\<close>

text \<open>\<^verbatim>\<open>forbidden_fn_chars_re = re.compile(r'[:\*\?"<>\|]')\<close>\<close>

definition forbidden_fn_chars :: "citem list" where
  "forbidden_fn_chars =
     [Chr (CHR '':''), Chr (CHR ''*''), Chr (CHR ''?''), Chr (CHR 0x22), Chr (CHR ''<''),
      Chr (CHR ''>''), Chr (CHR ''|'')]"

definition forbidden_fn_chars_re :: regex where
  "forbidden_fn_chars_re = Cls (Set_of forbidden_fn_chars)"

text \<open>\<^verbatim>\<open>re.findall(r"charset=(.*)?", content_type)\<close> in \<^verbatim>\<open>get_encoding\<close>.\<close>

definition charset_re :: regex where
  "charset_re = Cat [Lit ''charset='', Opt (Grp 1 (Star Dot))]"

text \<open>\<^verbatim>\<open>content_re = re.compile(r'([^;\s]*)(?:\s*;.*charset=(.*?)(?:\s|;|$))?')\<close>\<close>

definition content_re :: regex where
  "content_re =
     Cat [Grp 1 (Star (Not_of [Chr (CHR '';''), Space])),
          Opt (Cat [Star (Item Space), Lit '';'', Star Dot, Lit ''charset='', Grp 2 (Lazy Dot),
                    Alt (Cls (Item Space)) (Alt (Lit '';'') Eos)])]"

text \<open>\<^verbatim>\<open>fn_re = re.compile(r'filename="(.*?)\.\w*"')\<close>\<close>

definition fn_re :: regex where
  "fn_re = Cat [Lit ''filename=\"'', Grp 1 (Lazy Dot), Lit ''.'', Star (Item Word), Lit ''\"'']"

text \<open>\<^verbatim>\<open>amp_re = re.compile(r'&amp;?')\<close>\<close>

definition amp_re :: regex where
  "amp_re = Cat [Lit ''&amp'', Opt (Lit '';'')]"

text \<open>The four patterns of \<^verbatim>\<open>extract_download_info\<close>.\<close>

definition table_re_s :: regex where
  "table_re_s =
     Lit ''<div role=\"main\"><span id=\"maincontent\"></span><table class=\"generaltable mod_index\">''"

definition table_re_e :: regex where
  "table_re_e = Cat [Lit ''</table>'', Star (Item (Chr (CHR 0x0A))), Lit ''</div>'']"

definition cell_re :: regex where
  "cell_re =
     Cat [Lit ''<td class=\"cell c1\" style=\"text-align:left;\">'', Grp 1 (Lazy Dot), Lit ''</td>'']"

text \<open>\<^verbatim>\<open>text_str = r'href="(.*)".*src=".*/(?:icon|f/(\w+))".*alt="([\w|\s]*)" />\s?(.+)</a>'\<close>\<close>

definition text_re :: regex where
  "text_re =
     Cat [Lit ''href=\"'', Grp 1 (Star Dot), Lit ''\"'', Star Dot, Lit ''src=\"'', Star Dot, Lit ''/'',
          Alt (Lit ''icon'') (Cat [Lit ''f/'', Grp 2 (Plus (Item Word))]), Lit ''\"'', Star Dot,
          Lit ''alt=\"'', Grp 3 (Star (Set_of [Word, Chr (CHR ''|''), Space])), Lit ''\" />'',
          Opt (Cls (Item Space)), Grp 4 (Plus Dot), Lit ''</a>'']"

text \<open>\<^verbatim>\<open>learn_url_re = re.compile('https://learn\.canterbury\.ac\.nz/.*')\<close>\<close>

definition learn_url_re :: regex where
  "learn_url_re = Cat [Lit ''https://learn.canterbury.ac.nz/'', Star Dot]"

text \<open>\<^verbatim>\<open>'Click <a href="(.*?)">(.*?)\.pdf</a> link to download the file\.'\<close>\<close>

definition dl_url_re :: regex where
  "dl_url_re =
     Cat [Lit ''Click <a href=\"'', Grp 1 (Lazy Dot), Lit ''\">'', Grp 2 (Lazy Dot),
          Lit ''.pdf</a> link to download the file.'']"

text \<open>\<^verbatim>\<open>folder_re = re.compile(r'<form.*?action="(.*?)" >\n.*?name="id" value="(\d+)">')\<close>\<close>

definition folder_re :: regex where
  "folder_re =
     Cat [Lit ''<form'', Lazy Dot, Lit ''action=\"'', Grp 1 (Lazy Dot), Lit ''\" >\<newline>'', Lazy Dot,
          Lit ''name=\"id\" value=\"'', Grp 2 (Plus (Item Digit)), Lit ''\">'']"

text \<open>\<^verbatim>\<open>dl_re = re.compile(r'<div role="main">.*?<h2>(.*?)</h2>.*?href="(.*?)"')\<close>\<close>

definition dl_re :: regex where
  "dl_re =
     Cat [Lit ''<div role=\"main\">'', Lazy Dot, Lit ''<h2>'', Grp 1 (Lazy Dot), Lit ''</h2>'', Lazy Dot,
          Lit ''href=\"'', Grp 2 (Lazy Dot), Lit ''\"'']"

section \<open>Paths\<close>

text \<open>
  \<^verbatim>\<open>os.path\<close> is the POSIX one (\<^verbatim>\<open>posixpath\<close>): the separator is \<^verbatim>\<open>/\<close>, and a path is
  made absolute and normal from its text alone. The working directory \<open>cwd\<close> is what
  \<^verbatim>\<open>os.getcwd()\<close> returns.
\<close>

text \<open>\<^verbatim>\<open>s.split(c)\<close>\<close>

fun split_on :: "char \<Rightarrow> string \<Rightarrow> string list" where
  "split_on c [] = [[]]"
| "split_on c (x # xs) =
     (if x = c then [] # split_on c xs
      else (case split_on c xs of [] \<Rightarrow> [[x]] | w # ws \<Rightarrow> (x # w) # ws))"

text \<open>\<^verbatim>\<open>'/'.join(comps)\<close>\<close>

fun join_slash :: "string list \<Rightarrow> string" where
  "join_slash [] = []"
| "join_slash [w] = w"
| "join_slash (w # ws) = w @ ''/'' @ join_slash ws"

definition isabs :: "string \<Rightarrow> bool" where
  "isabs p = (take 1 p = ''/'')"

text \<open>\<^verbatim>\<open>os.path.join(a, b)\<close>\<close>

definition path_join :: "string \<Rightarrow> string \<Rightarrow> string" where
  "path_join a b =
     (if isabs b then b
      else if a = [] \<or> last a = CHR ''/'' then a @ b
      else a @ ''/'' @ b)"

definition initial_slashes :: "string \<Rightarrow> nat" where
  "initial_slashes path =
     (if isabs path then (if take 2 path = ''//'' \<and> take 3 path \<noteq> ''///'' then 2 else 1) else 0)"

text \<open>The body of the loop of \<^verbatim>\<open>normpath\<close> over the components.\<close>

definition norm_step :: "nat \<Rightarrow> string list \<Rightarrow> string \<Rightarrow> string list" where
  "norm_step init new_comps cmp =
     (if cmp = [] \<or> cmp = ''.'' then new_comps
      else if cmp \<noteq> ''..'' \<or> (init = 0 \<and> new_comps = [])
              \<or> (new_comps \<noteq> [] \<and> last new_comps = ''..'')
      then new_comps @ [cmp]
      else if new_comps \<noteq> [] then butlast new_comps
      else new_comps)"

definition normpath :: "string \<Rightarrow> string" where
  "normpath path =
     (if path = [] then ''.''
      else
        (let init = initial_slashes path;
             comps = foldl (norm_step init) [] (split_on (CHR ''/'') path);
             path' = replicate init (CHR ''/'') @ join_slash comps
         in if path' = [] then ''.'' else path'))"

definition abspath :: "string \<Rightarrow> string \<Rightarrow> string" where
  "abspath cwd path = normpath (if isabs path then path else path_join cwd path)"

text \<open>\<^verbatim>\<open>os.path.commonprefix\<close> of two lists, as its length.\<close>

fun common_len :: "string list \<Rightarrow> string list \<Rightarrow> nat" where
  "common_len (x # xs) (y # ys) = (if x = y then Suc (common_len xs ys) else 0)"
| "common_len _ _ = 0"

text \<open>\<^verbatim>\<open>os.path.relpath(path)\<close>, from the working directory; \<open>None\<close> is its
  \<^verbatim>\<open>ValueError("no path specified")\<close>.\<close>

definition relpath :: "string \<Rightarrow> string \<Rightarrow> string option" where
  "relpath cwd path =
     (if path = [] then None
      else
        (let start_list = filter (\<lambda>x. x \<noteq> []) (split_on (CHR ''/'') (abspath cwd ''.''));
             path_list = filter (\<lambda>x. x \<noteq> []) (split_on (CHR ''/'') (abspath cwd path));
             i = common_len start_list path_list;
             rel_list = replicate (length start_list - i) ''..'' @ drop i path_list
         in case rel_list of [] \<Rightarrow> Some ''.'' | a # p \<Rightarrow> Some (foldl path_join a p)))"

text \<open>\<^verbatim>\<open>os.path.dirname\<close>\<close>

definition dirname :: "string \<Rightarrow> string" where
  "dirname p =
     (let head = rev (dropWhile (\<lambda>c. c \<noteq> CHR ''/'') (rev p))
      in if head \<noteq> [] \<and> head \<noteq> replicate (length head) (CHR ''/'')
         then rev (dropWhile (\<lambda>c. c = CHR ''/'') (rev head)) else head)"


section \<open>The surroundings of the program\<close>

text \<open>An exception of Python is a value; the text it carries is a name or a path.\<close>

datatype error =
    NameError string
  | AttributeError
  | TypeError
  | ValueError
  | FileNotFoundError string
  | FileExistsError string
  | NotADirectoryError string
  | IsADirectoryError string
  | UnicodeDecodeError
  | OtherError string

text \<open>What \<^verbatim>\<open>self.opener.open(url)\<close> returns: the two headers the program reads
  (\<open>None\<close> for a header that is not there) and the body.\<close>

record response =
  hdr_content_type :: "string option"
  hdr_content_disposition :: "string option"
  body :: string

text \<open>
  What the program takes from outside its source file: the module constant \<^verbatim>\<open>DEBUG\<close>
  (the source sets it to \<^verbatim>\<open>True\<close>), the table \<^verbatim>\<open>FILE_EXT_MAP\<close> of the module
  \<^verbatim>\<open>extension_map\<close> (a media type maps to an extension or to \<^verbatim>\<open>None\<close>, or is not a key),
  \<^verbatim>\<open>urllib.parse.unquote\<close>, \<^verbatim>\<open>bytes.decode\<close>, the round trip through the codec
  \<^verbatim>\<open>cp850\<close> with replacement, the working directory, and the portal behind the opener.
\<close>

record env =
  DEBUG :: bool
  FILE_EXT_MAP :: "string \<rightharpoonup> string option"
  unquote :: "string \<Rightarrow> string"
  decode :: "string \<Rightarrow> string \<Rightarrow> error + string"
  cp850 :: "string \<Rightarrow> string"
  getcwd :: string
  opener_open :: "string \<Rightarrow> error + response"

text \<open>
  The file system and the two output streams. A directory or a file is named by its
  absolute normal path; the root directory always exists.
\<close>

record world =
  dirs :: "string list"
  files :: "(string \<times> string) list"
  stdout :: "string list"
  stderr :: "string list"

type_synonym 'a io = "world \<Rightarrow> (error + 'a) \<times> world"

definition return :: "'a \<Rightarrow> 'a io" where
  "return x = (\<lambda>w. (Inr x, w))"

definition raise :: "error \<Rightarrow> 'a io" where
  "raise e = (\<lambda>w. (Inl e, w))"

definition lift :: "error + 'a \<Rightarrow> 'a io" where
  "lift r = (\<lambda>w. (r, w))"

definition bindE :: "'a io \<Rightarrow> ('a \<Rightarrow> 'b io) \<Rightarrow> 'b io" where
  "bindE m f = (\<lambda>w. case m w of (Inl e, w') \<Rightarrow> (Inl e, w') | (Inr x, w') \<Rightarrow> f x w')"

definition print_out :: "string \<Rightarrow> unit io" where
  "print_out s = (\<lambda>w. (Inr (), w\<lparr>stdout := stdout w @ [s]\<rparr>))"

definition print_err :: "string \<Rightarrow> unit io" where
  "print_err s = (\<lambda>w. (Inr (), w\<lparr>stderr := stderr w @ [s]\<rparr>))"

definition quoted :: "string \<Rightarrow> string" where
  "quoted s = [CHR 0x27] @ s @ [CHR 0x27]"

definition is_dir :: "world \<Rightarrow> string \<Rightarrow> bool" where
  "is_dir w q = (q = ''/'' \<or> q \<in> set (dirs w))"

definition is_file :: "world \<Rightarrow> string \<Rightarrow> bool" where
  "is_file w q = (q \<in> set (map fst (files w)))"

text \<open>\<^verbatim>\<open>os.path.exists(p)\<close>\<close>

definition path_exists :: "string \<Rightarrow> world \<Rightarrow> string \<Rightarrow> bool" where
  "path_exists cwd w p = (p \<noteq> [] \<and> (let q = abspath cwd p in is_dir w q \<or> is_file w q))"

text \<open>The directories above an absolute normal path, the nearest last.\<close>

definition ancestors :: "string \<Rightarrow> string list" where
  "ancestors q =
     (let comps = filter (\<lambda>x. x \<noteq> []) (split_on (CHR ''/'') q)
      in map (\<lambda>k. ''/'' @ join_slash (take k comps)) [1..<length comps])"

text \<open>\<^verbatim>\<open>os.makedirs(p)\<close>\<close>

definition makedirs :: "string \<Rightarrow> string \<Rightarrow> unit io" where
  "makedirs cwd p = (\<lambda>w.
     let q = abspath cwd p in
     if p = [] then (Inl (FileNotFoundError p), w)
     else if is_dir w q \<or> is_file w q then (Inl (FileExistsError q), w)
     else if list_ex (is_file w) (ancestors q) then (Inl (NotADirectoryError q), w)
     else (Inr (), w\<lparr>dirs := dirs w @ filter (\<lambda>a. \<not> is_dir w a) (ancestors q @ [q])\<rparr>))"

text \<open>\<^verbatim>\<open>open(p, mode)\<close>, writing \<open>data\<close> and closing: mode \<^verbatim>\<open>'a'\<close> appends, the modes
  \<^verbatim>\<open>'w'\<close> and \<^verbatim>\<open>'w+b'\<close> replace what the file held.\<close>

definition write_file :: "string \<Rightarrow> bool \<Rightarrow> string \<Rightarrow> string \<Rightarrow> unit io" where
  "write_file cwd appending p data = (\<lambda>w.
     let q = abspath cwd p in
     if p = [] then (Inl (FileNotFoundError p), w)
     else if is_dir w q then (Inl (IsADirectoryError q), w)
     else if \<not> is_dir w (dirname q) then (Inl (FileNotFoundError q), w)
     else
       (let old = (case map_of (files w) q of None \<Rightarrow> [] | Some d \<Rightarrow> d)
        in (Inr (), w\<lparr>files := (q, (if appending then old else []) @ data)
                                # filter (\<lambda>(k, v). k \<noteq> q) (files w)\<rparr>)))"


section \<open>The loop over the synthetic names\<close>

text \<open>A component that \<^verbatim>\<open>normpath\<close> keeps as it is.\<close>

lemma split_on_not_Nil: "split_on c s \<noteq> []"
  by (induction s) (auto split: list.splits)

lemma split_on_no_sep: "c \<notin> set s \<Longrightarrow> split_on c s = [s]"
  by (induction s) auto

lemma split_on_snoc: "c \<notin> set t \<Longrightarrow> split_on c (d @ c # t) = split_on c d @ [t]"
  by (induction d) (auto simp: split_on_no_sep split_on_not_Nil split: list.splits)

lemma join_slash_snoc: "join_slash (S @ [t]) = (if S = [] then t else join_slash S @ ''/'' @ t)"
  by (induction S rule: join_slash.induct) auto

definition plain_comp :: "string \<Rightarrow> bool" where
  "plain_comp t = (t \<noteq> [] \<and> CHR ''/'' \<notin> set t \<and> t \<noteq> ''.'' \<and> t \<noteq> ''..'')"

lemma norm_step_plain: "plain_comp t \<Longrightarrow> norm_step n S t = S @ [t]"
  by (simp add: norm_step_def plain_comp_def)

lemma initial_slashes_snoc:
  assumes "plain_comp t"
  shows "initial_slashes (d @ CHR ''/'' # t) = initial_slashes (d @ ''/x'')"
proof -
  obtain a u where t: "t = a # u" and a: "a \<noteq> CHR ''/''"
    using assms by (cases t) (auto simp: plain_comp_def)
  show ?thesis
  proof (cases d)
    case Nil
    then show ?thesis using a by (simp add: initial_slashes_def isabs_def t)
  next
    case (Cons b d1)
    note d = this
    show ?thesis
    proof (cases d1)
      case Nil
      then show ?thesis using a d by (simp add: initial_slashes_def isabs_def t)
    next
      case (Cons b2 d2)
      then show ?thesis using a d by (cases d2) (simp_all add: initial_slashes_def isabs_def t)
    qed
  qed
qed

lemma normpath_snoc:
  "\<exists>P. \<forall>t. plain_comp t \<longrightarrow> normpath (d @ CHR ''/'' # t) = P @ t"
proof -
  define n where "n = initial_slashes (d @ ''/x'')"
  define S where "S = foldl (norm_step n) [] (split_on (CHR ''/'') d)"
  define P where "P = replicate n (CHR ''/'') @ (if S = [] then [] else join_slash S @ ''/'')"
  have "normpath (d @ CHR ''/'' # t) = P @ t" if t: "plain_comp t" for t
  proof -
    have t': "CHR ''/'' \<notin> set t" "t \<noteq> []" using t by (auto simp: plain_comp_def)
    have "foldl (norm_step n) [] (split_on (CHR ''/'') (d @ CHR ''/'' # t)) = S @ [t]"
      using t t' by (simp add: split_on_snoc S_def norm_step_plain)
    then show ?thesis
      using t' by (simp add: normpath_def Let_def initial_slashes_snoc[OF t] n_def[symmetric]
          join_slash_snoc P_def)
  qed
  then show ?thesis by blast
qed

lemma abspath_snoc:
  "\<exists>P. \<forall>t. plain_comp t \<longrightarrow> abspath cwd (d @ CHR ''/'' # t) = P @ t"
proof (cases "isabs (d @ ''/x'')")
  case True
  have "isabs (d @ CHR ''/'' # t)" for t using True by (cases d) (auto simp: isabs_def)
  then show ?thesis using normpath_snoc[of d] by (simp add: abspath_def)
next
  case False
  have na: "\<not> isabs (d @ CHR ''/'' # t)" for t using False by (cases d) (auto simp: isabs_def)
  obtain e where e: "\<And>t. path_join cwd (d @ CHR ''/'' # t) = e @ CHR ''/'' # t"
  proof
    fix t
    show "path_join cwd (d @ CHR ''/'' # t)
        = ((if cwd = [] \<or> last cwd = CHR ''/'' then cwd else cwd @ ''/'') @ d) @ CHR ''/'' # t"
      using na by (simp add: path_join_def)
  qed
  show ?thesis using normpath_snoc[of e] na by (simp add: abspath_def e)
qed

declare str_nat.simps [simp del]

lemma str_nat_not_Nil: "str_nat n \<noteq> []"
  by (subst str_nat.simps) simp

lemma digit_char_inj: "a < 10 \<Longrightarrow> b < 10 \<Longrightarrow> digit_char a = digit_char b \<Longrightarrow> a = b"
proof -
  assume a: "a < 10" and b: "b < 10" and e: "digit_char a = digit_char b"
  have "(of_char (digit_char a) :: nat) = of_char (digit_char b)" using e by simp
  then have "(48 + a) mod 256 = (48 + b) mod 256" by (simp add: digit_char_def)
  then show "a = b" using a b by simp
qed

lemma str_nat_inj: "str_nat n = str_nat m \<Longrightarrow> n = m"
proof (induction n arbitrary: m rule: less_induct)
  case (less n)
  have sn: "str_nat n = (if n < 10 then [digit_char n] else str_nat (n div 10) @ [digit_char (n mod 10)])"
    by (subst str_nat.simps) simp
  have sm: "str_nat m = (if m < 10 then [digit_char m] else str_nat (m div 10) @ [digit_char (m mod 10)])"
    by (subst str_nat.simps) simp
  show ?case
  proof (cases "n < 10")
    case True
    note n = this
    show ?thesis
    proof (cases "m < 10")
      case True
      then show ?thesis using n less.prems sn sm by (auto dest: digit_char_inj)
    next
      case False
      then show ?thesis using n less.prems sn sm by (auto simp: str_nat_not_Nil str_nat_not_Nil[symmetric])
    qed
  next
    case False
    note n = this
    show ?thesis
    proof (cases "m < 10")
      case True
      then show ?thesis using n less.prems sn sm by (auto simp: str_nat_not_Nil str_nat_not_Nil[symmetric])
    next
      case False
      then have e: "str_nat (n div 10) = str_nat (m div 10)" "digit_char (n mod 10) = digit_char (m mod 10)"
        using n less.prems sn sm by auto
      have "n div 10 < n" using n by simp
      then have "n div 10 = m div 10" using less.IH e(1) by blast
      moreover have "n mod 10 = m mod 10"
        using e(2) digit_char_inj[of "n mod 10" "m mod 10"] by simp
      ultimately show ?thesis by (metis div_mult_mod_eq)
    qed
  qed
qed

text \<open>The synthetic name \<^verbatim>\<open>f"{renamed_file}{i}"\<close> with \<^verbatim>\<open>renamed_file = "rn"\<close>.\<close>

definition rn_name :: "nat \<Rightarrow> string" where
  "rn_name i = ''rn'' @ str_nat i"

lemma plain_rn_name: "plain_comp (rn_name i)"
proof -
  have "CHR ''/'' \<notin> set (str_nat i)"
  proof (induction i rule: less_induct)
    case (less i)
    have si: "str_nat i = (if i < 10 then [digit_char i] else str_nat (i div 10) @ [digit_char (i mod 10)])"
      by (subst str_nat.simps) simp
    have d: "digit_char k \<noteq> CHR ''/''" if "k < 10" for k
    proof -
      have "of_char (digit_char k) = 48 + k" using that by (simp add: digit_char_def)
      then show ?thesis by auto
    qed
    show ?case
    proof (cases "i < 10")
      case True
      then show ?thesis using si d[of i] by auto
    next
      case False
      then have "i div 10 < i" by simp
      then show ?thesis using less.IH[of "i div 10"] si d[of "i mod 10"] False by auto
    qed
  qed
  then show ?thesis by (simp add: plain_comp_def rn_name_def)
qed

lemma rn_path_inj: "inj (\<lambda>i. abspath cwd (d @ ''/'' @ rn_name i))"
proof -
  obtain P where P: "\<And>t. plain_comp t \<Longrightarrow> abspath cwd (d @ CHR ''/'' # t) = P @ t"
    using abspath_snoc[of cwd d] by blast
  show ?thesis
  proof (rule injI)
    fix i j
    assume "abspath cwd (d @ ''/'' @ rn_name i) = abspath cwd (d @ ''/'' @ rn_name j)"
    then have "rn_name i = rn_name j" using P[OF plain_rn_name] by simp
    then show "i = j" by (simp add: rn_name_def str_nat_inj)
  qed
qed

lemma rn_taken_finite: "finite {i. path_exists cwd w (d @ ''/'' @ rn_name i)}"
proof -
  let ?f = "\<lambda>i. abspath cwd (d @ ''/'' @ rn_name i)"
  let ?A = "insert ''/'' (set (dirs w) \<union> set (map fst (files w)))"
  have "{i. path_exists cwd w (d @ ''/'' @ rn_name i)} \<subseteq> ?f -` ?A"
    by (auto simp: path_exists_def is_dir_def is_file_def Let_def)
  moreover have "finite (?f -` ?A)"
    using rn_path_inj[of cwd d] by (intro finite_vimageI) simp_all
  ultimately show ?thesis by (rule finite_subset)
qed

text \<open>
  The loop of \<^verbatim>\<open>downloadFile\<close> that looks for a free synthetic name:
  \<^verbatim>\<open>while os.path.exists(f"{dest_folder}/{renamed_file}{i}"): i += 1\<close>.
  It ends because the file system holds finitely many paths and the names differ.
\<close>

function rn_index :: "string \<Rightarrow> world \<Rightarrow> string \<Rightarrow> nat \<Rightarrow> nat" where
  "rn_index cwd w dest_folder i =
     (if path_exists cwd w (dest_folder @ ''/'' @ rn_name i)
      then rn_index cwd w dest_folder (i + 1) else i)"
  by pat_completeness auto
termination
proof (relation "measure (\<lambda>(cwd, w, d, i). card {j. i \<le> j \<and> path_exists cwd w (d @ ''/'' @ rn_name j)})")
  show "wf (measure (\<lambda>(cwd, w, d, i). card {j. i \<le> j \<and> path_exists cwd w (d @ ''/'' @ rn_name j)}))"
    by simp
next
  fix cwd w and dest_folder :: string and i :: nat
  assume ex: "path_exists cwd w (dest_folder @ ''/'' @ rn_name i)"
  let ?S = "\<lambda>i. {j. i \<le> j \<and> path_exists cwd w (dest_folder @ ''/'' @ rn_name j)}"
  have fin: "finite (?S i)"
    by (rule finite_subset[OF _ rn_taken_finite[of cwd w dest_folder]]) auto
  have "i \<in> ?S i" "i \<notin> ?S (i + 1)" "?S (i + 1) \<subseteq> ?S i" using ex by auto
  then have "?S (i + 1) \<subset> ?S i" by blast
  then have "card (?S (i + 1)) < card (?S i)" using fin by (rule psubset_card_mono[rotated])
  then show "((cwd, w, dest_folder, i + 1), (cwd, w, dest_folder, i))
      \<in> measure (\<lambda>(cwd, w, d, i). card {j. i \<le> j \<and> path_exists cwd w (d @ ''/'' @ rn_name j)})"
    by simp
qed

declare rn_index.simps [simp del]


section \<open>The program\<close>

definition MAX_FILE_NAME_LEN :: nat where
  "MAX_FILE_NAME_LEN = 259"

definition PATH_STORAGE_FN :: string where
  "PATH_STORAGE_FN = ''OrigFNames.txt''"

definition MAX_FOLDER_NAME_LEN :: nat where
  "MAX_FOLDER_NAME_LEN = MAX_FILE_NAME_LEN - length PATH_STORAGE_FN - 1"

text \<open>\<^verbatim>\<open>m.group(n)\<close> where the text is used as a string afterwards.\<close>

definition group_str :: "string \<Rightarrow> mobj \<Rightarrow> nat \<Rightarrow> error + string" where
  "group_str txt m n = (case group txt m n of None \<Rightarrow> Inl TypeError | Some x \<Rightarrow> Inr x)"

definition relpathE :: "string \<Rightarrow> string \<Rightarrow> error + string" where
  "relpathE cwd path = (case relpath cwd path of None \<Rightarrow> Inl ValueError | Some r \<Rightarrow> Inr r)"

subsection \<open>Fetching pages\<close>

definition get_encoding :: "string option \<Rightarrow> string \<Rightarrow> string io" where
  "get_encoding content_type url =
     (case content_type of
        None \<Rightarrow> raise TypeError
      | Some ct \<Rightarrow>
          (case findall1 charset_re ct of
             encoding # others \<Rightarrow>
               if others \<noteq> []
               then bindE (print_err ''\<newline>Warning: more than one encoding type declared!'') (\<lambda>_.
                    bindE (print_err (''Will attempt to use the first type found ('' @ encoding
                                      @ '')\<newline>'')) (\<lambda>_.
                    return encoding))
               else return encoding
           | [] \<Rightarrow>
               bindE (print_err (''Error: content_type = '' @ quoted ct
                                 @ '', attempting to decode with latin-1'')) (\<lambda>_.
               bindE (print_err url) (\<lambda>_.
               return ''latin-1''))))"

definition openWebpage :: "env \<Rightarrow> string \<Rightarrow> string io" where
  "openWebpage env url =
     bindE (lift (opener_open env url)) (\<lambda>response.
     bindE (get_encoding (hdr_content_type response) url) (\<lambda>encoding.
     (case decode env encoding (body response) of
        Inr decoded_webpage \<Rightarrow> return decoded_webpage
      | Inl UnicodeDecodeError \<Rightarrow>
          bindE (print_out ([CHR 0x5C] @ ''Error, could not decode the following:'')) (\<lambda>_.
          bindE (print_out (body response)) (\<lambda>_.
          raise UnicodeDecodeError))
      | Inl e \<Rightarrow> raise e)))"

definition get_header :: "env \<Rightarrow> string \<Rightarrow> response io" where
  "get_header env url = lift (opener_open env url)"

text \<open>The media type and the character set of a \<^verbatim>\<open>Content-Type\<close> header: the two groups of
  \<^verbatim>\<open>content_re.search(content_type)\<close>.\<close>

definition parse_content_type :: "string option \<Rightarrow> error + (string option \<times> string option)" where
  "parse_content_type content_type =
     (case content_type of
        None \<Rightarrow> Inl TypeError
      | Some ct \<Rightarrow>
          (case search content_re ct 0 of
             None \<Rightarrow> Inl AttributeError
           | Some content_match \<Rightarrow> Inr (group ct content_match 1, group ct content_match 2)))"

definition get_content_type :: "response \<Rightarrow> error + (string option \<times> string option)" where
  "get_content_type response = parse_content_type (hdr_content_type response)"

definition get_filename :: "env \<Rightarrow> response \<Rightarrow> string \<Rightarrow> error + string" where
  "get_filename env response learn_name =
     (case (case hdr_content_disposition response of
              None \<Rightarrow> Inr learn_name
            | Some cd \<Rightarrow>
                (case search fn_re cd 0 of
                   None \<Rightarrow> Inl AttributeError
                 | Some m \<Rightarrow> group_str cd m 1))
      of Inl e \<Rightarrow> Inl e
       | Inr filename \<Rightarrow> Inr (sub amp_re ''&'' (unquote env filename)))"

subsection \<open>The destination of a download\<close>

text \<open>
  Lines 191 to 229 of \<^verbatim>\<open>downloadFile\<close>: from the folder asked for, the file name and the
  extension (\<open>None\<close> when \<^verbatim>\<open>is_known_type\<close> is false) to the folder, the file name and the
  path that are used, with the path before the length rules (\<^verbatim>\<open>orig_path\<close>).
\<close>

record target =
  t_dest_folder :: string
  t_full_fn :: string
  t_dest :: string
  t_orig_path :: string

text \<open>Lines 191 to 196.\<close>

definition decode_folder :: "env \<Rightarrow> string \<Rightarrow> string" where
  "decode_folder env dest_folder = abspath (getcwd env) (unquote env (sub amp_re ''&'' dest_folder))"

text \<open>Lines 198 to 210: the forbidden characters.\<close>

definition strip_forbidden :: "env \<Rightarrow> string \<Rightarrow> string \<Rightarrow> (string \<times> string \<times> string) io" where
  "strip_forbidden env dest_folder full_fn =
     (let cwd = getcwd env;
          dest = abspath cwd (dest_folder @ ''/'' @ full_fn)
      in bindE (lift (relpathE cwd dest)) (\<lambda>rel_path.
         bindE (lift (relpathE cwd (sub forbidden_fn_chars_re [] rel_path))) (\<lambda>rel_path2.
         if rel_path \<noteq> rel_path2
         then
           bindE (print_err ''\<newline>Warning! The following characters cannot be used in file and folder names:'') (\<lambda>_.
           bindE (print_err (''    '' @ [CHR 0x5C] @ '' / : * ? < > |'')) (\<lambda>_.
           bindE (print_err (''The file named '' @ quoted rel_path @ '' has been renamed to ''
                             @ quoted rel_path2 @ '' accordingly.\<newline>'')) (\<lambda>_.
           bindE (lift (relpathE cwd dest_folder)) (\<lambda>rel_dest_folder.
           (let rel_dest_folder2 = sub forbidden_fn_chars_re [] rel_dest_folder;
                dest_folder' = abspath cwd rel_dest_folder2;
                full_fn' = sub forbidden_fn_chars_re [] full_fn
            in return (dest_folder', full_fn', abspath cwd (dest_folder' @ ''/'' @ full_fn')))))))
         else return (dest_folder, full_fn, dest))))"

text \<open>Lines 212 to 229: the two length rules.\<close>

definition shorten :: "env \<Rightarrow> string option \<Rightarrow> string \<times> string \<times> string \<Rightarrow> target io" where
  "shorten env ext = (\<lambda>(dest_folder0, full_fn, dest0). \<lambda>w.
     (let cwd = getcwd env;
          orig_path = dest0;
          (dest_folder, dest1) =
             (if length dest_folder0 > MAX_FOLDER_NAME_LEN
              then (let d = take MAX_FOLDER_NAME_LEN dest_folder0
                    in (d, abspath cwd (d @ ''/'' @ full_fn)))
              else (dest_folder0, dest0))
      in if length dest1 > MAX_FILE_NAME_LEN
         then
           (let i = rn_index cwd w dest_folder 1;
                full_fn' = (case ext of Some e \<Rightarrow> rn_name i @ ''.'' @ e | None \<Rightarrow> rn_name i)
            in (Inr \<lparr>t_dest_folder = dest_folder, t_full_fn = full_fn',
                       t_dest = abspath cwd (dest_folder @ ''/'' @ full_fn'),
                       t_orig_path = orig_path\<rparr>, w))
         else (Inr \<lparr>t_dest_folder = dest_folder, t_full_fn = full_fn, t_dest = dest1,
                     t_orig_path = orig_path\<rparr>, w)))"

definition resolve_target :: "env \<Rightarrow> string \<Rightarrow> string \<Rightarrow> string option \<Rightarrow> target io" where
  "resolve_target env dest_folder full_fn ext =
     bindE (strip_forbidden env (decode_folder env dest_folder) full_fn) (shorten env ext)"

text \<open>Lines 231 to 244: the directory, the entry in the side-car file, the download.\<close>

definition store :: "env \<Rightarrow> response \<Rightarrow> target \<Rightarrow> unit io" where
  "store env response t =
     (let cwd = getcwd env; dest_folder = t_dest_folder t; dest = t_dest t;
          orig_path = t_orig_path t
      in bindE (\<lambda>w. if \<not> path_exists cwd w dest_folder \<and> \<not> DEBUG env
                    then makedirs cwd dest_folder w else (Inr (), w)) (\<lambda>_.
         bindE (if orig_path \<noteq> dest
                then bindE (print_err (''Warning! File name too long:\<newline>'' @ quoted orig_path
                                       @ '' shortened to '' @ quoted dest)) (\<lambda>_.
                     write_file cwd True (abspath cwd (dest_folder @ ''/'' @ PATH_STORAGE_FN))
                       (quoted dest @ '' ==> '' @ quoted orig_path @ ''\<newline>''))
                else return ()) (\<lambda>_.
         if \<not> DEBUG env then write_file cwd False dest (body response) else return ())))"

text \<open>
  \<^verbatim>\<open>downloadFile\<close>. Where the media type is not a key of the table, or maps to
  \<^verbatim>\<open>None\<close>, line 185 builds its message from \<^verbatim>\<open>content_type\<close>, a name bound neither in
  the method nor in the module.
\<close>

definition downloadFile :: "env \<Rightarrow> string \<Rightarrow> string \<Rightarrow> string \<Rightarrow> unit io" where
  "downloadFile env url dest_folder learn_name =
     bindE (lift (opener_open env url)) (\<lambda>response.
     bindE (lift (get_filename env response learn_name)) (\<lambda>filename.
     bindE (print_out (''Downloading '' @ quoted filename)) (\<lambda>_.
     bindE (lift (get_content_type response)) (\<lambda>(media_type, encoding).
     (case (case media_type of None \<Rightarrow> None | Some mt \<Rightarrow> FILE_EXT_MAP env mt) of
        Some (Some ext) \<Rightarrow>
          bindE (resolve_target env dest_folder (filename @ ''.'' @ ext) (Some ext))
                (store env response)
      | _ \<Rightarrow> raise (NameError ''content_type''))))))"


subsection \<open>Reading the pages of the portal\<close>

text \<open>\<^verbatim>\<open>extract_between_res\<close>; the result \<open>None\<close> is Python's \<^verbatim>\<open>None\<close>.\<close>

definition extract_between_res :: "string \<Rightarrow> regex \<Rightarrow> regex \<Rightarrow> string option" where
  "extract_between_res html_txt start_re end_re =
     (case search start_re html_txt 0 of
        None \<Rightarrow> None
      | Some start_match \<Rightarrow>
          (let start_index = mend start_match
           in case search end_re html_txt start_index of
                None \<Rightarrow> None
              | Some end_match \<Rightarrow>
                  (let end_index = mstart end_match
                   in Some (slice html_txt start_index end_index))))"

text \<open>\<^verbatim>\<open>get_type\<close>: \<open>file_type\<close> is group 2 of the cell pattern, \<open>None\<close> where the icon is
  \<^verbatim>\<open>icon\<close>; the result \<open>None\<close> is Python's \<^verbatim>\<open>None\<close>.\<close>

definition get_type :: "string \<Rightarrow> string option \<Rightarrow> string \<Rightarrow> string option io" where
  "get_type item_type file_type url =
     bindE (if file_type = Some []
            then print_out (''A non-file item of type '' @ quoted item_type @ '' was found'')
            else return ()) (\<lambda>_.
     if item_type = ''File'' then return (Some ''file'')
     else if item_type = ''Folder'' then return (Some ''folder'')
     else if item_type = ''URL'' then return (Some ''url'')
     else if item_type = ''Page'' then return (Some ''page'')
     else if item_type = ''Course Material'' then return (Some ''material'')
     else bindE (print_out (''An item of unknown type '' @ quoted item_type
                            @ '' was found, this item will be ignored!'')) (\<lambda>_.
          return None))"

text \<open>A resource descriptor: the type, the URL and the name shown by the portal.\<close>

type_synonym descriptor = "string option \<times> string \<times> string"

text \<open>The body of the loop of \<^verbatim>\<open>extract_download_info\<close> over the cells.\<close>

definition parse_cell :: "string \<Rightarrow> descriptor io" where
  "parse_cell cell_text =
     (case search text_re cell_text 0 of
        None \<Rightarrow> raise AttributeError
      | Some text_match \<Rightarrow>
          bindE (lift (group_str cell_text text_match 1)) (\<lambda>url.
          bindE (lift (group_str cell_text text_match 3)) (\<lambda>item_type.
          bindE (lift (group_str cell_text text_match 4)) (\<lambda>learn_name.
          bindE (get_type item_type (group cell_text text_match 2) url) (\<lambda>type.
          return (type, url, learn_name))))))"

fun parse_cells :: "string list \<Rightarrow> descriptor list \<Rightarrow> descriptor list io" where
  "parse_cells [] item_array = return item_array"
| "parse_cells (cell_text # cell_texts) item_array =
     bindE (parse_cell cell_text) (\<lambda>d. parse_cells cell_texts (item_array @ [d]))"

definition extract_download_info :: "string \<Rightarrow> descriptor list io" where
  "extract_download_info courseResourceText =
     (case extract_between_res courseResourceText table_re_s table_re_e of
        None \<Rightarrow> raise TypeError
      | Some table_text \<Rightarrow> parse_cells (findall1 cell_re table_text) [])"

subsection \<open>The handlers of the four types\<close>

definition extract_pdf_url :: "env \<Rightarrow> string \<Rightarrow> string io" where
  "extract_pdf_url env url =
     (if match learn_url_re url \<noteq> None
      then
        bindE (openWebpage env url) (\<lambda>dl_page_text.
        bindE (write_file (getcwd env) False ''ouput.txt'' (cp850 env dl_page_text @ ''\<newline>'')) (\<lambda>_.
        (case search dl_url_re dl_page_text 0 of
           None \<Rightarrow> raise AttributeError
         | Some dl_url_match \<Rightarrow> lift (group_str dl_page_text dl_url_match 1))))
      else return url)"

text \<open>Lines 453 to 461 of \<^verbatim>\<open>download_file\<close>: the URL the file is fetched from.\<close>

definition file_dl_url :: "env \<Rightarrow> string \<Rightarrow> string io" where
  "file_dl_url env url =
     bindE (get_header env url) (\<lambda>header.
     bindE (lift (parse_content_type (hdr_content_type header))) (\<lambda>(media_type, encoding).
     if media_type = Some ''text/html'' then extract_pdf_url env url else return url))"

definition download_file :: "env \<Rightarrow> string \<Rightarrow> string \<Rightarrow> string \<Rightarrow> unit io" where
  "download_file env url target_dest learn_name =
     bindE (file_dl_url env url) (\<lambda>dl_url.
     downloadFile env dl_url (target_dest @ ''/Single Files/'' @ learn_name) learn_name)"

text \<open>Lines 469 to 474 of \<^verbatim>\<open>download_folder\<close>: the URL of the archive, from the text of
  the page of the folder.\<close>

definition folder_dl_url :: "string \<Rightarrow> error + string" where
  "folder_dl_url folder_text =
     (case search folder_re folder_text 0 of
        None \<Rightarrow> Inl AttributeError
      | Some folder_match \<Rightarrow>
          (case (group folder_text folder_match 1, group folder_text folder_match 2) of
             (Some base_url, Some download_ext) \<Rightarrow> Inr (base_url @ ''?id='' @ download_ext)
           | _ \<Rightarrow> Inl TypeError))"

definition download_folder :: "env \<Rightarrow> string \<Rightarrow> string \<Rightarrow> string \<Rightarrow> unit io" where
  "download_folder env url target_dest learn_name =
     bindE (print_out (''\<newline>Extracting download links for files nested in ''
                       @ quoted target_dest @ '' folder'')) (\<lambda>_.
     bindE (openWebpage env url) (\<lambda>folder_text.
     bindE (lift (folder_dl_url folder_text)) (\<lambda>dl_url.
     downloadFile env dl_url (target_dest @ ''/'' @ learn_name) learn_name)))"

text \<open>Lines 487 to 503 of \<^verbatim>\<open>download_url\<close>: writing the shortcut.\<close>

definition write_shortcut :: "env \<Rightarrow> string \<Rightarrow> string \<Rightarrow> string \<Rightarrow> unit io" where
  "write_shortcut env target_dest0 title target =
     (let cwd = getcwd env;
          target_dest = target_dest0 @ ''/Single Files/''
      in bindE (lift (relpathE cwd (target_dest @ ''/'' @ title @ ''.url''))) (\<lambda>dest.
         bindE (lift (relpathE cwd (sub forbidden_fn_chars_re [] dest))) (\<lambda>dest2.
         bindE (if dest \<noteq> dest2
                then
                  bindE (print_err ''\<newline>Warning! The following characters cannot be used in file and folder names:'') (\<lambda>_.
                  bindE (print_err (''    '' @ [CHR 0x5C] @ '' / : * ? < > |'')) (\<lambda>_.
                  print_err (''The file named '' @ quoted dest @ '' has been renamed to ''
                             @ quoted dest2 @ '' accordingly.\<newline>'')))
                else return ()) (\<lambda>_.
         bindE (\<lambda>w. if \<not> path_exists cwd w (abspath cwd target_dest)
                     then makedirs cwd (abspath cwd target_dest) w else (Inr (), w)) (\<lambda>_.
         write_file cwd False (abspath cwd dest2)
           (''[InternetShortcut]\<newline>URL='' @ target @ ''\<newline>''))))))"

definition download_url :: "env \<Rightarrow> string \<Rightarrow> string \<Rightarrow> string \<Rightarrow> unit io" where
  "download_url env url target_dest learn_name =
     bindE (openWebpage env url) (\<lambda>dl_page_text.
     (case search dl_re dl_page_text 0 of
        None \<Rightarrow> raise AttributeError
      | Some dl_match \<Rightarrow>
          bindE (lift (group_str dl_page_text dl_match 1)) (\<lambda>title.
          bindE (lift (group_str dl_page_text dl_match 2)) (\<lambda>target.
          write_shortcut env target_dest title target))))"

definition download_page :: "env \<Rightarrow> string \<Rightarrow> string \<Rightarrow> string \<Rightarrow> unit io" where
  "download_page env url target_dest learn_name =
     downloadFile env url (target_dest @ ''/Single Files/'') learn_name"

text \<open>The loop of \<^verbatim>\<open>download_resource_page\<close> and the function itself.\<close>

fun download_items :: "env \<Rightarrow> string \<Rightarrow> descriptor list \<Rightarrow> unit io" where
  "download_items env target_dest [] = return ()"
| "download_items env target_dest ((item_type, item_url, item_name) # items) =
     bindE (print_out (''downloading '' @ item_name)) (\<lambda>_.
     bindE (if item_type = Some ''file'' then download_file env item_url target_dest item_name
            else if item_type = Some ''folder'' then download_folder env item_url target_dest item_name
            else if item_type = Some ''url'' then download_url env item_url target_dest item_name
            else if item_type = Some ''page'' then download_page env item_url target_dest item_name
            else return ()) (\<lambda>_.
     download_items env target_dest items))"

definition download_resource_page :: "env \<Rightarrow> string \<Rightarrow> string \<Rightarrow> unit io" where
  "download_resource_page env target_dest courseResourceURL =
     bindE (print_out ''Extracting file and folder links from Resource Page'') (\<lambda>_.
     bindE (openWebpage env courseResourceURL) (\<lambda>resource_page.
     bindE (extract_download_info resource_page) (\<lambda>item_array.
     download_items env target_dest item_array)))"


section \<open>Concrete inputs\<close>

text \<open>The cell of the scenario of the resource table, and a resource page whose table holds
  this one cell.\<close>

definition syllabus_cell :: string where
  "syllabus_cell = ''<td class=\"cell c1\" style=\"text-align:left;\"><a href=\"/mod/resource/view.php?id=5\">...src=\".../f/pdf\" alt=\"File\" />  Syllabus</a></td>''"

definition syllabus_page :: string where
  "syllabus_page =
     ''<div role=\"main\"><span id=\"maincontent\"></span><table class=\"generaltable mod_index\">''
     @ syllabus_cell @ ''</table>\<newline></div>''"

text \<open>A world with no directory but the root, no file and nothing printed.\<close>

definition empty_world :: world where
  "empty_world = \<lparr>dirs = [], files = [], stdout = [], stderr = []\<rparr>"

text \<open>A text with two bracketed regions.\<close>

definition two_regions :: string where
  "two_regions = ''ab[cd]ef[gh]''"

text \<open>
  An environment for the examples: the table knows \<^verbatim>\<open>application/pdf\<close> and maps
  \<^verbatim>\<open>application/octet-stream\<close> to \<^verbatim>\<open>None\<close>; the texts of the examples hold no \<^verbatim>\<open>%\<close> and
  only ASCII, on which \<^verbatim>\<open>unquote\<close>, \<^verbatim>\<open>decode\<close> and the round trip through \<^verbatim>\<open>cp850\<close>
  change nothing; the opener knows no URL.
\<close>

definition plain_env :: env where
  "plain_env =
     \<lparr>DEBUG = False,
      FILE_EXT_MAP = [''application/pdf'' \<mapsto> Some ''pdf'', ''application/octet-stream'' \<mapsto> None],
      unquote = (\<lambda>s. s),
      decode = (\<lambda>encoding b. Inr b),
      cp850 = (\<lambda>s. s),
      getcwd = ''/home/u'',
      opener_open = (\<lambda>url. Inl (OtherError ''HTTPError''))\<rparr>"

text \<open>A response whose media type is not in the table.\<close>

definition unknown_response :: response where
  "unknown_response =
     \<lparr>hdr_content_type = Some ''application/x-unknown'', hdr_content_disposition = None,
      body = ''DATA''\<rparr>"

text \<open>A world where the working directory \<^verbatim>\<open>/home/u\<close> exists.\<close>

definition home_world :: world where
  "home_world = \<lparr>dirs = [''/home'', ''/home/u''], files = [], stdout = [], stderr = []\<rparr>"

text \<open>The page of a resource of type URL.\<close>

definition link_page :: response where
  "link_page =
     \<lparr>hdr_content_type = Some ''text/html; charset=utf-8'', hdr_content_disposition = None,
      body = ''<div role=\"main\"><h2>Course site</h2><a href=\"https://example.org/\">here</a></div>''\<rparr>"

text \<open>A folder whose path has 258 characters, the 244 characters that are kept of it, and
  the path of the first synthetic name with the extension \<^verbatim>\<open>pdf\<close> there.\<close>

definition long_folder :: string where
  "long_folder = ''/home/u/'' @ replicate 250 (CHR ''a'')"

definition cut_folder :: string where
  "cut_folder = take 244 long_folder"

definition rn1_path :: string where
  "rn1_path = cut_folder @ ''/rn1.pdf''"

definition pdf_response :: "string \<Rightarrow> response" where
  "pdf_response data =
     \<lparr>hdr_content_type = Some ''application/pdf'', hdr_content_disposition = None, body = data\<rparr>"

text \<open>A world where the cut folder exists and is empty, and one where it holds the file
  \<^verbatim>\<open>rn1.pdf\<close> of an earlier download.\<close>

definition cut_world :: world where
  "cut_world = \<lparr>dirs = [''/home'', ''/home/u'', cut_folder], files = [], stdout = [], stderr = []\<rparr>"

definition rn1_world :: world where
  "rn1_world = cut_world\<lparr>files := [(rn1_path, ''FIRST'')]\<rparr>"

text \<open>A response that names a file with two dots.\<close>

definition versioned_response :: response where
  "versioned_response =
     \<lparr>hdr_content_type = Some ''application/pdf'',
      hdr_content_disposition = Some ''attachment; filename=\"report.v2.pdf\"'',
      body = []\<rparr>"

section \<open>What is claimed of a search\<close>

text \<open>
  \<open>m\<close> is the first match of \<open>r\<close> in \<open>txt\<close> at or after \<open>pos\<close>: the pattern matches at the
  start of \<open>m\<close> with the end and the groups of \<open>m\<close>, and at no index from \<open>pos\<close> up to there.
\<close>

definition first_match :: "regex \<Rightarrow> string \<Rightarrow> nat \<Rightarrow> mobj \<Rightarrow> bool" where
  "first_match r txt pos m =
     (pos \<le> mstart m \<and> mstart m \<le> length txt
      \<and> match_at r (mstart m) (drop (mstart m) txt) = Some m
      \<and> (\<forall>j \<in> {pos..<mstart m}. match_at r j (drop j txt) = None))"

text \<open>The text \<open>l\<close> stands in \<open>s\<close> at index \<open>j\<close>.\<close>

definition occurs_at :: "string \<Rightarrow> string \<Rightarrow> nat \<Rightarrow> bool" where
  "occurs_at l s j = (take (length l) (drop j s) = l)"

section \<open>Properties of the matcher\<close>

lemma star_inv:
  "star c i s g k = Some x \<Longrightarrow> \<exists>u s'. s = u @ s' \<and> k (i + length u) s' g = Some x"
proof (induction s arbitrary: i)
  case Nil
  then show ?case by simp
next
  case (Cons a s)
  show ?case
  proof (cases "cls_match c a \<and> star c (Suc i) s g k \<noteq> None")
    case True
    then have "star c (Suc i) s g k = Some x" using Cons.prems by auto
    then obtain u s' where "s = u @ s'" "k (Suc i + length u) s' g = Some x"
      using Cons.IH by blast
    then have "a # s = (a # u) @ s' \<and> k (i + length (a # u)) s' g = Some x" by simp
    then show ?thesis by blast
  next
    case False
    then have "k i (a # s) g = Some x" using Cons.prems by (auto split: if_splits option.splits)
    then have "a # s = [] @ (a # s) \<and> k (i + length ([]::string)) (a # s) g = Some x" by simp
    then show ?thesis by blast
  qed
qed

lemma lazy_inv:
  "lazy c i s g k = Some x \<Longrightarrow> \<exists>u s'. s = u @ s' \<and> k (i + length u) s' g = Some x"
proof (induction s arbitrary: i)
  case Nil
  then show ?case by simp
next
  case (Cons a s)
  show ?case
  proof (cases "k i (a # s) g")
    case (Some y)
    then have "k i (a # s) g = Some x" using Cons.prems by simp
    then have "a # s = [] @ (a # s) \<and> k (i + length ([]::string)) (a # s) g = Some x" by simp
    then show ?thesis by blast
  next
    case None
    then have "lazy c (Suc i) s g k = Some x" using Cons.prems by (auto split: if_splits)
    then obtain u s' where "s = u @ s'" "k (Suc i + length u) s' g = Some x"
      using Cons.IH by blast
    then have "a # s = (a # u) @ s' \<and> k (i + length (a # u)) s' g = Some x" by simp
    then show ?thesis by blast
  qed
qed


lemma rmatch_inv:
  "rmatch r i s g k = Some x \<Longrightarrow> \<exists>u s' g'. s = u @ s' \<and> k (i + length u) s' g' = Some x"
proof (induction r i s g k arbitrary: x rule: rmatch.induct)
  case (1 l i s g k)
  then have "take (length l) s = l" "k (i + length l) (drop (length l) s) g = Some x"
    by (auto split: if_splits)
  then have "s = l @ drop (length l) s \<and> k (i + length l) (drop (length l) s) g = Some x"
    using append_take_drop_id[of "length l" s] by simp
  then show ?case by blast
next
  case (2 c i s g k)
  then obtain a t where "s = a # t" "k (Suc i) t g = Some x"
    by (auto split: list.splits if_splits)
  then have "s = [a] @ t \<and> k (i + length [a]) t g = Some x" by simp
  then show ?case by blast
next
  case (3 c i s g k)
  then show ?case using star_inv[of c i s g k x] by auto
next
  case (4 c i s g k)
  then show ?case using lazy_inv[of c i s g k x] by auto
next
  case (5 c i s g k)
  then obtain a t where s: "s = a # t" and st: "star c (Suc i) t g k = Some x"
    by (auto split: list.splits if_splits)
  from star_inv[OF st] obtain u s' where "t = u @ s'" "k (Suc i + length u) s' g = Some x"
    by auto
  then have "s = (a # u) @ s' \<and> k (i + length (a # u)) s' g = Some x" using s by simp
  then show ?case by blast
next
  case (6 r i s g k)
  show ?case
  proof (cases "rmatch r i s g k")
    case None
    then have "k i s g = Some x" using 6 by simp
    then have "s = [] @ s \<and> k (i + length ([]::string)) s g = Some x" by simp
    then show ?thesis by blast
  next
    case (Some y)
    then show ?thesis using 6 by simp
  qed
next
  case (7 a b i s g k)
  show ?case
  proof (cases "rmatch a i s g k")
    case None
    then show ?thesis using 7 by simp
  next
    case (Some y)
    then show ?thesis using 7 by simp
  qed
next
  case (8 n r i s g k)
  from 8(2) have "rmatch r i s g (\<lambda>j s' g'. k j s' (g'(n \<mapsto> (i, j)))) = Some x" by simp
  from 8(1)[OF this]
  obtain u s' g' where "s = u @ s'" "k (i + length u) s' (g'(n \<mapsto> (i, i + length u))) = Some x"
    by auto
  then show ?case by blast
next
  case (9 i s g k)
  then have "s = [] @ s \<and> k (i + length ([]::string)) s g = Some x" by simp
  then show ?case by blast
next
  case (10 r rs i s g k)
  from 10(3) have "rmatch r i s g (\<lambda>j s' g'. rmatch (Cat rs) j s' g' k) = Some x" by simp
  from 10(2)[OF this]
  obtain u s' g' where 1: "s = u @ s'" "rmatch (Cat rs) (i + length u) s' g' k = Some x"
    by auto
  from 10(1)[OF 1(2)]
  obtain u2 s2 g2 where 2: "s' = u2 @ s2" "k (i + length u + length u2) s2 g2 = Some x"
    by auto
  have "s = (u @ u2) @ s2 \<and> k (i + length (u @ u2)) s2 g2 = Some x"
    using 1 2 by (simp add: add.assoc)
  then show ?case by blast
next
  case (11 i s g k)
  then have "s = [] @ s \<and> k (i + length ([]::string)) s g = Some x" by (simp split: if_splits)
  then show ?case by blast
qed

lemma match_at_span:
  assumes "match_at r i s = Some m"
  shows "mstart m = i \<and> i \<le> mend m \<and> mend m \<le> i + length s"
proof -
  obtain u s' g' where "s = u @ s'" "Some \<lparr>mstart = i, mend = i + length u, mgroups = g'\<rparr> = Some m"
    using rmatch_inv[OF assms[unfolded match_at_def]] by auto
  then show ?thesis by auto
qed

lemma search_from_Some:
  "search_from r i s = Some m \<Longrightarrow>
     i \<le> mstart m \<and> mstart m \<le> i + length s
     \<and> match_at r (mstart m) (drop (mstart m - i) s) = Some m
     \<and> (\<forall>j. i \<le> j \<and> j < mstart m \<longrightarrow> match_at r j (drop (j - i) s) = None)"
proof (induction s arbitrary: i)
  case Nil
  then have m: "match_at r i [] = Some m" by simp
  then have "mstart m = i" using match_at_span by blast
  then show ?case using m by auto
next
  case (Cons a s)
  show ?case
  proof (cases "match_at r i (a # s)")
    case (Some y)
    then have m: "match_at r i (a # s) = Some m" using Cons.prems by simp
    then have "mstart m = i" using match_at_span by blast
    then show ?thesis using m by auto
  next
    case None
    then have "search_from r (Suc i) s = Some m" using Cons.prems by simp
    from Cons.IH[OF this]
    have ih: "Suc i \<le> mstart m" "mstart m \<le> Suc i + length s"
      "match_at r (mstart m) (drop (mstart m - Suc i) s) = Some m"
      "\<And>j. Suc i \<le> j \<Longrightarrow> j < mstart m \<Longrightarrow> match_at r j (drop (j - Suc i) s) = None"
      by auto
    have d: "drop (j - i) (a # s) = drop (j - Suc i) s" if "Suc i \<le> j" for j
      using that by (simp add: drop_Cons' Suc_diff_le)
    have "match_at r j (drop (j - i) (a # s)) = None" if "i \<le> j" "j < mstart m" for j
    proof (cases "j = i")
      case True
      then show ?thesis using None by simp
    next
      case False
      then have "Suc i \<le> j" using that by simp
      then show ?thesis using ih(4) that d by simp
    qed
    then show ?thesis using ih d[of "mstart m"] by simp
  qed
qed

lemma search_from_None:
  "search_from r i s = None \<Longrightarrow> i \<le> j \<Longrightarrow> j \<le> i + length s
     \<Longrightarrow> match_at r j (drop (j - i) s) = None"
proof (induction s arbitrary: i)
  case Nil
  then show ?case by simp
next
  case (Cons a s)
  have n: "match_at r i (a # s) = None" "search_from r (Suc i) s = None"
    using Cons.prems(1) by (auto split: option.splits)
  show ?case
  proof (cases "j = i")
    case True
    then show ?thesis using n by simp
  next
    case False
    then have j: "Suc i \<le> j" "j \<le> Suc i + length s" using Cons.prems by auto
    have "drop (j - i) (a # s) = drop (j - Suc i) s"
      using j by (simp add: drop_Cons' Suc_diff_le)
    then show ?thesis using Cons.IH[OF n(2) j] by simp
  qed
qed

lemma search_first_match:
  assumes "pos \<le> length txt"
  shows "(search r txt pos = Some m) = first_match r txt pos m"
proof
  assume "search r txt pos = Some m"
  then have s: "search_from r pos (drop pos txt) = Some m"
    using assms by (simp add: search_def min_def)
  from search_from_Some[OF s]
  have f: "pos \<le> mstart m" "mstart m \<le> pos + length (drop pos txt)"
    "match_at r (mstart m) (drop (mstart m - pos) (drop pos txt)) = Some m"
    "\<And>j. pos \<le> j \<Longrightarrow> j < mstart m \<Longrightarrow> match_at r j (drop (j - pos) (drop pos txt)) = None"
    by auto
  have "\<forall>j \<in> {pos..<mstart m}. match_at r j (drop j txt) = None"
    using f(4) by auto
  then show "first_match r txt pos m"
    using f(1,2,3) assms by (simp add: first_match_def)
next
  assume fm: "first_match r txt pos m"
  then have f: "pos \<le> mstart m" "mstart m \<le> length txt"
    "match_at r (mstart m) (drop (mstart m) txt) = Some m"
    "\<And>j. pos \<le> j \<Longrightarrow> j < mstart m \<Longrightarrow> match_at r j (drop j txt) = None"
    by (auto simp: first_match_def)
  show "search r txt pos = Some m"
  proof (cases "search_from r pos (drop pos txt)")
    case None
    have "match_at r (mstart m) (drop (mstart m - pos) (drop pos txt)) = None"
      by (rule search_from_None[OF None]) (use f assms in auto)
    then show ?thesis using f by simp
  next
    case (Some m')
    from search_from_Some[OF Some]
    have g: "pos \<le> mstart m'" "match_at r (mstart m') (drop (mstart m' - pos) (drop pos txt)) = Some m'"
      "\<And>j. pos \<le> j \<Longrightarrow> j < mstart m' \<Longrightarrow> match_at r j (drop (j - pos) (drop pos txt)) = None"
      by auto
    have "\<not> mstart m < mstart m'"
    proof
      assume "mstart m < mstart m'"
      then have "match_at r (mstart m) (drop (mstart m - pos) (drop pos txt)) = None"
        using g(3) f(1) by simp
      then show False using f by simp
    qed
    moreover have "\<not> mstart m' < mstart m"
    proof
      assume "mstart m' < mstart m"
      then have "match_at r (mstart m') (drop (mstart m') txt) = None" using f(4) g(1) by simp
      then show False using g by simp
    qed
    ultimately have e: "mstart m' = mstart m" by simp
    have "drop (mstart m - pos) (drop pos txt) = drop (mstart m) txt" using f(1) by simp
    then have "match_at r (mstart m) (drop (mstart m) txt) = Some m'"
      using g(2) unfolding e by simp
    then have "m' = m" using f(3) by simp
    then show ?thesis using Some assms by (simp add: search_def min_def)
  qed
qed

lemma first_match_end:
  "first_match r txt pos m \<Longrightarrow> mstart m \<le> mend m \<and> mend m \<le> length txt"
  using match_at_span[of r "mstart m" "drop (mstart m) txt" m] by (auto simp: first_match_def)


lemma slice_between:
  assumes "a \<le> b" "b \<le> length t"
  shows "(t = take a t @ x @ drop b t \<and> length x = b - a) = (x = slice t a b)"
proof
  assume h: "t = take a t @ x @ drop b t \<and> length x = b - a"
  then have "drop a t = drop a (take a t @ x @ drop b t)" by simp
  also have "\<dots> = x @ drop b t" using assms by simp
  finally have "take (b - a) (drop a t) = take (b - a) (x @ drop b t)" by simp
  then show "x = slice t a b" using h by (simp add: slice_def)
next
  assume x: "x = slice t a b"
  have "drop b t = drop (b - a) (drop a t)" using assms by simp
  then have "take (b - a) (drop a t) @ drop b t = drop a t"
    by (simp only: append_take_drop_id)
  then have "take a t @ take (b - a) (drop a t) @ drop b t = t"
    by (simp only: append_take_drop_id)
  then show "t = take a t @ x @ drop b t \<and> length x = b - a"
    using assms x by (simp add: slice_def)
qed

subsection \<open>Matches of a known shape\<close>

lemma rmatch_Lit_app: "rmatch (Lit l) i (l @ s) g k = k (i + length l) s g"
  by simp

lemma rmatch_Lit_fail: "\<not> occurs_at l s 0 \<Longrightarrow> rmatch (Lit l) i s g k = None"
  by (simp add: occurs_at_def)

lemma lazy_here: "k i s g = Some r \<Longrightarrow> lazy cl i s g k = Some r"
  by (cases s) simp_all

lemma lazy_skip:
  assumes "\<forall>c\<in>set u. cls_match cl c"
    and "\<forall>j<length u. k (i + j) (drop j u @ s) g = None"
  shows "lazy cl i (u @ s) g k = lazy cl (i + length u) s g k"
  using assms
proof (induction u arbitrary: i)
  case Nil
  then show ?case by simp
next
  case (Cons a u)
  have 0: "k i (a # u @ s) g = None" using Cons.prems(2) by force
  have m: "cls_match cl a" using Cons.prems(1) by simp
  have "\<forall>j<length u. k (Suc i + j) (drop j u @ s) g = None"
  proof (intro allI impI)
    fix j assume "j < length u"
    then have "k (i + Suc j) (drop (Suc j) (a # u) @ s) g = None"
      using Cons.prems(2) by (metis Suc_less_eq length_Cons)
    then show "k (Suc i + j) (drop j u @ s) g = None" by simp
  qed
  then have "lazy cl (Suc i) (u @ s) g k = lazy cl (Suc i + length u) s g k"
    using Cons.IH[of "Suc i"] Cons.prems(1) by simp
  then show ?case using 0 m by simp
qed

lemma star_max:
  assumes "\<forall>c\<in>set u. cls_match cl c"
    and "s = [] \<or> \<not> cls_match cl (hd s)"
    and "k (i + length u) s g = Some r"
  shows "star cl i (u @ s) g k = Some r"
  using assms
proof (induction u arbitrary: i)
  case Nil
  then show ?case by (cases s) auto
next
  case (Cons a u)
  then have "star cl (Suc i) (u @ s) g k = Some r" by simp
  then show ?case using Cons.prems(1) by simp
qed

lemma star_none:
  assumes "\<And>u v. s = u @ v \<Longrightarrow> \<forall>c\<in>set u. cls_match cl c \<Longrightarrow> k (i + length u) v g = None"
  shows "star cl i s g k = None"
  using assms
proof (induction s arbitrary: i)
  case Nil
  then show ?case using Nil[of "[]" "[]"] by simp
next
  case (Cons a s)
  have 0: "k i (a # s) g = None" using Cons.prems[of "[]" "a # s"] by simp
  show ?case
  proof (cases "cls_match cl a")
    case False
    then show ?thesis using 0 by simp
  next
    case True
    have "star cl (Suc i) s g k = None"
    proof (rule Cons.IH)
      fix u v assume "s = u @ v" "\<forall>c\<in>set u. cls_match cl c"
      then have "k (i + length (a # u)) v g = None"
        using Cons.prems[of "a # u" v] True by simp
      then show "k (Suc i + length u) v g = None" by simp
    qed
    then show ?thesis using 0 True by simp
  qed
qed

lemma split_before:
  assumes "u @ v = x @ d # y" and "d \<notin> set u"
  shows "\<exists>x'. x = u @ x' \<and> v = x' @ d # y"
proof -
  from assms(1) consider (a) t where "u = x @ t" "t @ v = d # y" | (b) t where "u @ t = x" "v = t @ d # y"
    by (auto simp: append_eq_append_conv2)
  then show ?thesis
  proof cases
    case a
    then show ?thesis using assms(2) by (cases t) auto
  next
    case b
    then show ?thesis by auto
  qed
qed


lemma fn_shape_match:
  assumes q: "CHR 0x22 \<notin> set b" and nl: "CHR 0x0A \<notin> set b" and w: "\<forall>c\<in>set e. is_word c"
  shows "match_at (Cat [Lit F, Grp 1 (Lazy Dot), Lit ''.'', Star (Item Word), Lit ''\"'']) i
           (F @ b @ ''.'' @ e @ ''\"'' @ post)
       = Some \<lparr>mstart = i, mend = i + length F + length b + 1 + length e + 1,
                mgroups = [1 \<mapsto> (i + length F, i + length F + length b)]\<rparr>"
proof -
  define K :: "mobj cont" where "K = (\<lambda>j s' g. Some \<lparr>mstart = i, mend = j, mgroups = g\<rparr>)"
  define k3 :: "mobj cont" where "k3 = (\<lambda>j s' g'. rmatch (Cat [Lit ''\"'']) j s' g' K)"
  define k1 :: "mobj cont" where
    "k1 = (\<lambda>j s' g'. rmatch (Cat [Lit ''.'', Star (Item Word), Lit ''\"'']) j s'
                       (g'(1 \<mapsto> (i + length F, j))) K)"
  let ?tail = "''.'' @ e @ ''\"'' @ post"
  have step1: "match_at (Cat [Lit F, Grp 1 (Lazy Dot), Lit ''.'', Star (Item Word), Lit ''\"'']) i
                  (F @ b @ ?tail) = lazy Dot (i + length F) (b @ ?tail) Map.empty k1"
    by (simp add: match_at_def K_def k1_def)
  have k1_dot: "k1 j (CHR ''.'' # r) g = star (Item Word) (Suc j) r (g(1 \<mapsto> (i + length F, j))) k3" for j r g
    by (simp add: k1_def k3_def)
  have k1_other: "k1 j (a # r) g = None" if "a \<noteq> CHR ''.''" for j a r g
    using that by (simp add: k1_def)
  have k3_quote: "k3 j (CHR 0x22 # r) g = Some \<lparr>mstart = i, mend = Suc j, mgroups = g\<rparr>" for j r g
    by (simp add: k3_def K_def)
  have k3_other: "k3 j v g = None" if "v = [] \<or> hd v \<noteq> CHR 0x22" for j v g
    using that by (cases v) (auto simp: k3_def)
  have fail: "\<forall>j<length b. k1 (i + length F + j) (drop j b @ ?tail) Map.empty = None"
  proof (intro allI impI)
    fix j assume j: "j < length b"
    then obtain a t where d: "drop j b = a # t" by (cases "drop j b") auto
    then have sub: "set (a # t) \<subseteq> set b" using set_drop_subset[of j b] by simp
    show "k1 (i + length F + j) (drop j b @ ?tail) Map.empty = None"
    proof (cases "a = CHR ''.''")
      case False
      then show ?thesis using d k1_other by simp
    next
      case True
      have "star (Item Word) (Suc (i + length F + j)) (t @ ?tail) (Map.empty(1 \<mapsto> (i + length F, i + length F + j))) k3 = None"
      proof (rule star_none)
        fix u v
        assume uv: "t @ ?tail = u @ v" and allw: "\<forall>c\<in>set u. cls_match (Item Word) c"
        have nd: "CHR ''.'' \<notin> set u"
        proof
          assume "CHR ''.'' \<in> set u"
          then have "is_word (CHR ''.'')" using allw by auto
          then show False by (simp add: is_word_def)
        qed
        have eq: "u @ v = t @ CHR ''.'' # (e @ ''\"'' @ post)" using uv by simp
        from split_before[OF eq nd]
        obtain x' where x': "t = u @ x'" "v = x' @ CHR ''.'' # (e @ ''\"'' @ post)"
          by auto
        have "hd v \<noteq> CHR 0x22"
        proof (cases x')
          case Nil
          then show ?thesis using x' by simp
        next
          case (Cons c cs)
          then have "c \<in> set b" using x' sub by auto
          then show ?thesis using Cons x' q by auto
        qed
        then show "k3 (Suc (i + length F + j) + length u) v (Map.empty(1 \<mapsto> (i + length F, i + length F + j))) = None"
          using k3_other by simp
      qed
      then show ?thesis using d True k1_dot by simp
    qed
  qed
  have succ: "k1 (i + length F + length b) ?tail Map.empty
      = Some \<lparr>mstart = i, mend = i + length F + length b + 1 + length e + 1,
               mgroups = [1 \<mapsto> (i + length F, i + length F + length b)]\<rparr>"
  proof -
    have nw: "\<not> cls_match (Item Word) (hd (''\"'' @ post))" by (simp add: is_word_def)
    have "star (Item Word) (Suc (i + length F + length b)) (e @ (''\"'' @ post))
            (Map.empty(1 \<mapsto> (i + length F, i + length F + length b))) k3
        = Some \<lparr>mstart = i, mend = i + length F + length b + 1 + length e + 1,
               mgroups = [1 \<mapsto> (i + length F, i + length F + length b)]\<rparr>"
    proof (rule star_max)
      show "\<forall>c\<in>set e. cls_match (Item Word) c" using w by simp
      show "''\"'' @ post = [] \<or> \<not> cls_match (Item Word) (hd (''\"'' @ post))" using nw by simp
      show "k3 (Suc (i + length F + length b) + length e) (''\"'' @ post)
              (Map.empty(1 \<mapsto> (i + length F, i + length F + length b)))
          = Some \<lparr>mstart = i, mend = i + length F + length b + 1 + length e + 1,
               mgroups = [1 \<mapsto> (i + length F, i + length F + length b)]\<rparr>"
        using k3_quote by simp
    qed
    then show ?thesis using k1_dot[of "i + length F + length b" "e @ ''\"'' @ post" Map.empty] by simp
  qed
  have dots: "\<forall>c\<in>set b. cls_match Dot c" using nl by auto
  have "lazy Dot (i + length F) (b @ ?tail) Map.empty k1 = lazy Dot (i + length F + length b) ?tail Map.empty k1"
    using lazy_skip[where u = b and cl = Dot and k = k1 and i = "i + length F" and s = "?tail" and g = Map.empty] dots fail
    by simp
  also have "\<dots> = Some \<lparr>mstart = i, mend = i + length F + length b + 1 + length e + 1,
               mgroups = [1 \<mapsto> (i + length F, i + length F + length b)]\<rparr>"
    using lazy_here[where k = k1 and i = "i + length F + length b" and s = "?tail" and g = Map.empty] succ
    by simp
  finally show ?thesis using step1 by simp
qed

lemma cat_lit_fail:
  "\<not> occurs_at l s 0 \<Longrightarrow> match_at (Cat (Lit l # rs)) j s = None"
  by (simp add: match_at_def occurs_at_def)

lemma occurs_at_drop: "occurs_at l (drop j s) 0 = occurs_at l s j"
  by (simp add: occurs_at_def)

lemma slice_mid: "slice (p @ b @ q) (length p) (length p + length b) = b"
  by (simp add: slice_def)

lemma fn_re_search:
  assumes shape: "cd = pre @ ''filename=\"'' @ b @ ''.'' @ e @ ''\"'' @ post"
    and first: "\<forall>j<length pre. \<not> occurs_at ''filename=\"'' cd j"
    and q: "CHR 0x22 \<notin> set b" and nl: "CHR 0x0A \<notin> set b" and w: "\<forall>c\<in>set e. is_word c"
  shows "\<exists>m. search fn_re cd 0 = Some m \<and> group cd m 1 = Some b"
proof -
  define F where "F = ''filename=\"''"
  define m where "m = \<lparr>mstart = length pre, mend = length pre + length F + length b + 1 + length e + 1,
                mgroups = [1 \<mapsto> (length pre + length F, length pre + length F + length b)]\<rparr>"
  have fn: "fn_re = Cat [Lit F, Grp 1 (Lazy Dot), Lit ''.'', Star (Item Word), Lit ''\"'']"
    by (simp add: fn_re_def F_def)
  have cd: "cd = pre @ F @ b @ ''.'' @ e @ ''\"'' @ post" using shape by (simp add: F_def)
  have dr: "drop (length pre) cd = F @ b @ ''.'' @ e @ ''\"'' @ post" using cd by simp
  have at: "match_at fn_re (length pre) (drop (length pre) cd) = Some m"
    unfolding fn dr m_def by (rule fn_shape_match[OF q nl w])
  have before: "\<forall>j \<in> {0..<length pre}. match_at fn_re j (drop j cd) = None"
  proof
    fix j assume "j \<in> {0..<length pre}"
    then have "\<not> occurs_at F (drop j cd) 0" using first by (simp add: occurs_at_drop F_def)
    then show "match_at fn_re j (drop j cd) = None" unfolding fn by (rule cat_lit_fail)
  qed
  have "first_match fn_re cd 0 m"
    unfolding first_match_def using at before by (simp add: m_def cd)
  then have s: "search fn_re cd 0 = Some m" using search_first_match[of 0 cd fn_re m] by simp
  have "slice ((pre @ F) @ b @ (''.'' @ e @ ''\"'' @ post)) (length (pre @ F)) (length (pre @ F) + length b) = b"
    by (rule slice_mid)
  then have "group cd m 1 = Some b" by (simp add: group_def m_def cd)
  then show ?thesis using s by blast
qed

section \<open>The fragment extractor\<close>

text \<open>
  Claim C8: \<^verbatim>\<open>extract_between_res\<close> returns the text strictly between the end of the first
  match of the start pattern and the start of the first match of the end pattern at or after
  that end; it returns \<^verbatim>\<open>None\<close>, and raises nothing, exactly when the start pattern has no
  match or the end pattern has no match from the end of the start match on (so also when the
  end pattern matches only before it).
\<close>

theorem extract_between_res_first_matches:
  "((extract_between_res t sre ere = Some x) =
      (\<exists>m1 m2. first_match sre t 0 m1 \<and> first_match ere t (mend m1) m2
         \<and> mend m1 \<le> mstart m2 \<and> mstart m2 \<le> length t
         \<and> t = take (mend m1) t @ x @ drop (mstart m2) t \<and> length x = mstart m2 - mend m1))
   \<and> ((extract_between_res t sre ere = None) =
      ((\<forall>m1. \<not> first_match sre t 0 m1)
       \<or> (\<exists>m1. first_match sre t 0 m1 \<and> (\<forall>m2. \<not> first_match ere t (mend m1) m2))))"
  (is "(?L = (\<exists>m1 m2. ?P m1 m2)) \<and> (?N = (?A \<or> ?B))")
proof (cases "search sre t 0")
  case None
  then have n: "\<not> first_match sre t 0 m" for m using search_first_match[of 0 t sre m] by simp
  have e: "extract_between_res t sre ere = None" using None by (simp add: extract_between_res_def)
  have "\<not> (\<exists>m1 m2. ?P m1 m2)" using n by blast
  moreover have "?A" using n by blast
  ultimately show ?thesis using e by simp
next
  case (Some m1)
  note s1 = this
  then have f1: "first_match sre t 0 m1" using search_first_match[of 0 t sre m1] by simp
  have u1: "m = m1" if "first_match sre t 0 m" for m
    using that s1 search_first_match[of 0 t sre m] by simp
  have le: "mend m1 \<le> length t" using first_match_end[OF f1] by simp
  have notA: "\<not> ?A" using f1 by blast
  show ?thesis
  proof (cases "search ere t (mend m1)")
    case None
    then have n: "\<not> first_match ere t (mend m1) m" for m
      using search_first_match[OF le, of ere m] by simp
    have e: "extract_between_res t sre ere = None"
      using s1 None by (simp add: extract_between_res_def)
    have "\<not> (\<exists>n1 n2. ?P n1 n2)"
    proof
      assume "\<exists>n1 n2. ?P n1 n2"
      then obtain n1 n2 where h: "first_match sre t 0 n1" "first_match ere t (mend n1) n2" by blast
      have "n1 = m1" using u1[OF h(1)] .
      then show False using h(2) n by simp
    qed
    moreover have "?B" using f1 n by blast
    ultimately show ?thesis using e by simp
  next
    case (Some m2)
    note s2 = this
    then have f2: "first_match ere t (mend m1) m2" using search_first_match[OF le, of ere m2] by simp
    have u2: "m = m2" if "first_match ere t (mend m1) m" for m
      using that s2 search_first_match[OF le, of ere m] by simp
    have b: "mend m1 \<le> mstart m2" "mstart m2 \<le> length t" using f2 by (auto simp: first_match_def)
    have r: "extract_between_res t sre ere = Some (slice t (mend m1) (mstart m2))"
      using s1 s2 by (simp add: extract_between_res_def)
    have "?L = (\<exists>n1 n2. ?P n1 n2)"
    proof
      assume "?L"
      then have "x = slice t (mend m1) (mstart m2)" using r by simp
      then have "t = take (mend m1) t @ x @ drop (mstart m2) t \<and> length x = mstart m2 - mend m1"
        using slice_between[OF b, of x] by simp
      then have "?P m1 m2" using f1 f2 b by simp
      then show "\<exists>n1 n2. ?P n1 n2" by blast
    next
      assume "\<exists>n1 n2. ?P n1 n2"
      then obtain n1 n2 where h: "first_match sre t 0 n1" "first_match ere t (mend n1) n2"
        "t = take (mend n1) t @ x @ drop (mstart n2) t \<and> length x = mstart n2 - mend n1"
        by blast
      have 1: "n1 = m1" using u1[OF h(1)] .
      have 2: "n2 = m2" using u2[of n2] h(2) unfolding 1 by simp
      have "x = slice t (mend m1) (mstart m2)"
        using h(3) slice_between[OF b, of x] unfolding 1 2 by simp
      then show "?L" using r by simp
    qed
    moreover have "\<not> ?B"
    proof
      assume "?B"
      then obtain n1 where h: "first_match sre t 0 n1" "\<forall>m2. \<not> first_match ere t (mend n1) m2"
        by blast
      have "n1 = m1" using u1[OF h(1)] .
      then show False using h(2) f2 by simp
    qed
    ultimately show ?thesis using r notA by simp
  qed
qed

theorem extract_between_res_first_matches_witness:
  "\<exists>m1 m2. first_match (Lit ''['') two_regions 0 m1 \<and> first_match (Lit '']'') two_regions (mend m1) m2
      \<and> mend m1 \<le> mstart m2 \<and> mstart m2 \<le> length two_regions
      \<and> two_regions = take (mend m1) two_regions @ ''cd'' @ drop (mstart m2) two_regions
      \<and> length ''cd'' = mstart m2 - mend m1"
proof -
  have "extract_between_res two_regions (Lit ''['') (Lit '']'') = Some ''cd''" by code_simp
  then show ?thesis
    using extract_between_res_first_matches[of two_regions "Lit ''[''" "Lit '']''" "''cd''"] by simp
qed

section \<open>The resource list parser\<close>

text \<open>
  Claim C7, as stated: the cell of the scenario yields the descriptor with type \<^verbatim>\<open>file\<close>,
  URL \<^verbatim>\<open>/mod/resource/view.php?id=5\<close> and name \<^verbatim>\<open>Syllabus\<close>. It fails: the cell has two
  spaces between \<^verbatim>\<open>/>\<close> and the name, and \<^verbatim>\<open>\s?\<close> of the cell pattern takes one of them.
\<close>

theorem syllabus_name_counterexample:
  "fst (extract_download_info syllabus_page empty_world)
     \<noteq> Inr [(Some ''file'', ''/mod/resource/view.php?id=5'', ''Syllabus'')]"
  by code_simp

text \<open>
  Claim C7, amended: for a resource page whose table holds the cell of the scenario, the
  parser returns exactly one descriptor, with type \<^verbatim>\<open>file\<close>, URL
  \<^verbatim>\<open>/mod/resource/view.php?id=5\<close> and the name \<^verbatim>\<open>Syllabus\<close> with one space before it;
  it prints nothing and changes nothing.
\<close>

theorem syllabus_descriptor:
  "extract_download_info syllabus_page w
     = (Inr [(Some ''file'', ''/mod/resource/view.php?id=5'', '' Syllabus'')], w)"
  by code_simp


section \<open>Unknown media types\<close>

text \<open>
  Claim C5 says that a download whose media type is not in the table, or is mapped to
  \<^verbatim>\<open>None\<close>, is saved without an extension after a warning. The code does not get there:
  whenever the response is received, the file name is resolved and the media type is read
  and is unknown, \<^verbatim>\<open>downloadFile\<close> raises \<^verbatim>\<open>NameError\<close> for the name \<^verbatim>\<open>content_type\<close>; it
  has printed the line \<^verbatim>\<open>Downloading\<close> and nothing else, and has written nothing.
\<close>

theorem downloadFile_unknown_media_type_raises:
  assumes "opener_open env url = Inr response"
    and "get_filename env response learn_name = Inr filename"
    and "get_content_type response = Inr (media_type, encoding)"
    and "(case media_type of None \<Rightarrow> None | Some mt \<Rightarrow> FILE_EXT_MAP env mt) = None
       \<or> (case media_type of None \<Rightarrow> None | Some mt \<Rightarrow> FILE_EXT_MAP env mt) = Some None"
  shows "downloadFile env url dest_folder learn_name w
       = (Inl (NameError ''content_type''),
          w\<lparr>stdout := stdout w @ [''Downloading '' @ quoted filename]\<rparr>)"
  using assms
  by (auto simp: downloadFile_def bindE_def lift_def print_out_def raise_def)

theorem downloadFile_unknown_media_type_raises_witness:
  "downloadFile (plain_env\<lparr>opener_open := (\<lambda>url. Inr unknown_response)\<rparr>)
     ''https://learn.canterbury.ac.nz/mod/resource/view.php?id=7''
     ''/home/u/COSC101/Single Files/notes'' ''notes'' empty_world
   = (Inl (NameError ''content_type''),
      empty_world\<lparr>stdout := stdout empty_world @ [''Downloading '' @ quoted ''notes'']\<rparr>)"
proof -
  let ?env = "plain_env\<lparr>opener_open := (\<lambda>url. Inr unknown_response)\<rparr>"
  let ?url = "''https://learn.canterbury.ac.nz/mod/resource/view.php?id=7''"
  have 1: "opener_open ?env ?url = Inr unknown_response" by simp
  have 2: "get_filename ?env unknown_response ''notes'' = Inr ''notes''" by code_simp
  have 3: "get_content_type unknown_response = Inr (Some ''application/x-unknown'', None)"
    by code_simp
  have 4: "(case Some ''application/x-unknown'' of None \<Rightarrow> None | Some mt \<Rightarrow> FILE_EXT_MAP ?env mt) = None
       \<or> (case Some ''application/x-unknown'' of None \<Rightarrow> None | Some mt \<Rightarrow> FILE_EXT_MAP ?env mt) = Some None"
    by (simp add: plain_env_def)
  show ?thesis
    by (rule downloadFile_unknown_media_type_raises[OF 1 2 3 4])
qed


section \<open>The debug flag\<close>

text \<open>
  Claim C1 says that with the debug flag set no operation writes to the file system. The
  code guards two writes of \<^verbatim>\<open>downloadFile\<close> only (\<^verbatim>\<open>os.makedirs\<close> and the download itself).
  With \<^verbatim>\<open>DEBUG\<close> true: \<^verbatim>\<open>download_url\<close> creates the directory \<^verbatim>\<open>Single Files\<close> and writes
  the shortcut file; and \<^verbatim>\<open>downloadFile\<close>, for a path that is too long in a folder that
  exists, appends the entry to the side-car file \<^verbatim>\<open>OrigFNames.txt\<close>.
\<close>

theorem debug_writes:
  "DEBUG (plain_env\<lparr>DEBUG := True, opener_open := (\<lambda>url. Inr link_page)\<rparr>)
   \<and> download_url (plain_env\<lparr>DEBUG := True, opener_open := (\<lambda>url. Inr link_page)\<rparr>)
        ''https://learn.canterbury.ac.nz/mod/url/view.php?id=9'' ''/home/u/COSC101''
        ''Course site'' home_world
      = (Inr (),
         home_world\<lparr>dirs := [''/home'', ''/home/u'', ''/home/u/COSC101'', ''/home/u/COSC101/Single Files''],
                    files := [(''/home/u/COSC101/Single Files/Course site.url'',
                               ''[InternetShortcut]\<newline>URL=https://example.org/\<newline>'')]\<rparr>)
   \<and> (case downloadFile (plain_env\<lparr>DEBUG := True, opener_open := (\<lambda>url. Inr (pdf_response ''FIRST''))\<rparr>)
              ''https://learn.canterbury.ac.nz/a'' long_folder ''Lecture notes week 1'' cut_world
        of (r, w) \<Rightarrow> (r, dirs w, files w))
      = (Inr (), dirs cut_world,
         [(cut_folder @ ''/OrigFNames.txt'',
           quoted rn1_path @ '' ==> '' @ quoted (long_folder @ ''/Lecture notes week 1.pdf'')
           @ ''\<newline>'')])"
  by code_simp

section \<open>The synthetic names\<close>

lemma rn_index_least:
  "\<not> path_exists cwd w (d @ ''/'' @ rn_name (rn_index cwd w d i))
   \<and> i \<le> rn_index cwd w d i
   \<and> (\<forall>j. i \<le> j \<and> j < rn_index cwd w d i \<longrightarrow> path_exists cwd w (d @ ''/'' @ rn_name j))"
proof (induction cwd w d i rule: rn_index.induct)
  case (1 cwd w d i)
  show ?case
  proof (cases "path_exists cwd w (d @ ''/'' @ rn_name i)")
    case False
    then have "rn_index cwd w d i = i" by (subst rn_index.simps) simp
    then show ?thesis using False by auto
  next
    case True
    then have e: "rn_index cwd w d i = rn_index cwd w d (i + 1)" by (subst rn_index.simps) simp
    have ih: "\<not> path_exists cwd w (d @ ''/'' @ rn_name (rn_index cwd w d (i + 1)))"
      "i + 1 \<le> rn_index cwd w d (i + 1)"
      "\<And>j. i + 1 \<le> j \<Longrightarrow> j < rn_index cwd w d (i + 1) \<Longrightarrow> path_exists cwd w (d @ ''/'' @ rn_name j)"
      using 1[OF True] by auto
    have "path_exists cwd w (d @ ''/'' @ rn_name j)" if "i \<le> j" "j < rn_index cwd w d (i + 1)" for j
    proof (cases "j = i")
      case True
      then show ?thesis using \<open>path_exists cwd w (d @ ''/'' @ rn_name i)\<close> by simp
    next
      case False
      then show ?thesis using that ih(3)[of j] by simp
    qed
    then show ?thesis using ih(1,2) unfolding e by auto
  qed
qed

text \<open>
  Claim C4 says that the fallback never overwrites an existing file. The loop tests the name
  \<^verbatim>\<open>rn<i>\<close> without the extension and the file is written as \<^verbatim>\<open>rn<i>.<ext>\<close>: in a folder
  that holds \<^verbatim>\<open>rn1.pdf\<close> from an earlier download and no \<^verbatim>\<open>rn1\<close>, the next download whose
  path is too long picks 1 again and replaces the content of \<^verbatim>\<open>rn1.pdf\<close>.
\<close>

theorem rn_overwrites:
  "\<not> DEBUG (plain_env\<lparr>opener_open := (\<lambda>url. Inr (pdf_response ''SECOND''))\<rparr>)
   \<and> map_of (files rn1_world) rn1_path = Some ''FIRST''
   \<and> (case downloadFile (plain_env\<lparr>opener_open := (\<lambda>url. Inr (pdf_response ''SECOND''))\<rparr>)
              ''https://learn.canterbury.ac.nz/b'' long_folder ''Lecture notes week 2'' rn1_world
        of (r, w) \<Rightarrow> (r, map_of (files w) rn1_path, map fst (files w)))
      = (Inr (), Some ''SECOND'', [rn1_path, cut_folder @ ''/OrigFNames.txt''])"
  by code_simp

text \<open>The file \<^verbatim>\<open>rn1.pdf\<close> of that folder is what the first such download leaves there.\<close>

lemma first_download_is_rn1:
  "(case downloadFile (plain_env\<lparr>opener_open := (\<lambda>url. Inr (pdf_response ''FIRST''))\<rparr>)
              ''https://learn.canterbury.ac.nz/a'' long_folder ''Lecture notes week 1'' cut_world
        of (r, w) \<Rightarrow> (r, map_of (files w) rn1_path, map fst (files w)))
      = (Inr (), Some ''FIRST'', [rn1_path, cut_folder @ ''/OrigFNames.txt''])"
  by code_simp

section \<open>The name from the header\<close>

text \<open>
  Claim C10 says that the name is cut at the first dot. The pattern \<^verbatim>\<open>filename="(.*?)\.\w*"\<close>
  needs the quote right after the word characters that follow the dot, so the lazy group
  runs up to the last dot: the header \<^verbatim>\<open>attachment; filename="report.v2.pdf"\<close> gives
  \<^verbatim>\<open>report.v2\<close>, not \<^verbatim>\<open>report\<close>.
\<close>

theorem get_filename_first_dot_counterexample:
  "get_filename plain_env versioned_response ''Report'' = Inr ''report.v2''
   \<and> get_filename plain_env versioned_response ''Report'' \<noteq> Inr ''report''"
  by code_simp

text \<open>
  Claim C10, amended: when the header is \<open>pre\<close>, \<^verbatim>\<open>filename="\<close>, \<open>b\<close>, a dot, \<open>e\<close>, a quote and
  \<open>post\<close>, where \<^verbatim>\<open>filename="\<close> stands nowhere earlier, \<open>b\<close> has no quote and no line break and
  \<open>e\<close> is made of word characters (so the dot is the last one of the quoted name), the
  resolved name is \<open>b\<close>, percent-decoded and then with \<^verbatim>\<open>&amp;\<close> turned into \<^verbatim>\<open>&\<close>; the part
  \<open>e\<close> is dropped. When the header is absent, the name is the display name, treated the same
  way.
\<close>

theorem get_filename_last_dot:
  assumes "cd = pre @ ''filename=\"'' @ b @ ''.'' @ e @ ''\"'' @ post"
    and "\<forall>j<length pre. \<not> occurs_at ''filename=\"'' cd j"
    and "CHR 0x22 \<notin> set b" and "CHR 0x0A \<notin> set b" and "\<forall>c\<in>set e. is_word c"
  shows "get_filename env (response\<lparr>hdr_content_disposition := Some cd\<rparr>) learn_name
           = Inr (sub amp_re ''&'' (unquote env b))
       \<and> get_filename env (response\<lparr>hdr_content_disposition := None\<rparr>) learn_name
           = Inr (sub amp_re ''&'' (unquote env learn_name))"
proof -
  from fn_re_search[OF assms] obtain m where "search fn_re cd 0 = Some m" "group cd m 1 = Some b"
    by blast
  then show ?thesis by (simp add: get_filename_def group_str_def)
qed

theorem get_filename_last_dot_witness:
  "get_filename plain_env
       (versioned_response\<lparr>hdr_content_disposition := Some ''attachment; filename=\"Tom &amp; Co.v2.pdf\"; size=3''\<rparr>)
       ''R&amp;D''
     = Inr ''Tom & Co.v2''
   \<and> get_filename plain_env (versioned_response\<lparr>hdr_content_disposition := None\<rparr>) ''R&amp;D''
     = Inr ''R&D''"
proof -
  have 1: "''attachment; filename=\"Tom &amp; Co.v2.pdf\"; size=3''
      = ''attachment; '' @ ''filename=\"'' @ ''Tom &amp; Co.v2'' @ ''.'' @ ''pdf'' @ ''\"'' @ ''; size=3''"
    by simp
  have 2: "\<forall>j<length ''attachment; ''. \<not> occurs_at ''filename=\"'' ''attachment; filename=\"Tom &amp; Co.v2.pdf\"; size=3'' j"
    by (simp add: occurs_at_def All_less_Suc)
  have 3: "CHR 0x22 \<notin> set ''Tom &amp; Co.v2''" by simp
  have 4: "CHR 0x0A \<notin> set ''Tom &amp; Co.v2''" by simp
  have 5: "\<forall>c\<in>set ''pdf''. is_word c" by code_simp
  have 6: "sub amp_re ''&'' (unquote plain_env ''Tom &amp; Co.v2'') = ''Tom & Co.v2''" by code_simp
  have 7: "sub amp_re ''&'' (unquote plain_env ''R&amp;D'') = ''R&D''" by code_simp
  show ?thesis
    using get_filename_last_dot[OF 1 2 3 4 5, where env = plain_env and response = versioned_response
        and learn_name = "''R&amp;D''"]
    by (simp only: 6 7)
qed

end
